theory Spec2Isabelle
  imports Main
begin

section \<open>The Weights and Biases logger for CHTC jobs\<close>

text \<open>
  The development embeds the class \<^verbatim>\<open>CHTCWandBLogger\<close>: the two text extractors
  \<^verbatim>\<open>_parse_submit_file\<close> and \<^verbatim>\<open>_parse_log_file\<close>, the run opener
  \<^verbatim>\<open>init_run\<close> and the two recording operations \<^verbatim>\<open>log_job_submission\<close> and
  \<^verbatim>\<open>log_job_completion\<close>.

  Python values are modelled as follows.
  \<^item> A \<^verbatim>\<open>str\<close> is a \<open>string\<close>; every character is an ASCII code point. Text
    outside ASCII is not covered by the model.
  \<^item> A \<^verbatim>\<open>dict\<close> is an association list with distinct keys in insertion order;
    assignment to an existing key keeps its position, as in Python.
  \<^item> \<^verbatim>\<open>Optional[T]\<close> is \<open>T option\<close>, and the truth value Python gives to
    \<^verbatim>\<open>None\<close>, \<^verbatim>\<open>""\<close>, \<^verbatim>\<open>[]\<close> and \<^verbatim>\<open>{}\<close> is written out.
  \<^item> An exception is a value \<open>Inl e\<close>; a normal return is \<open>Inr r\<close>.
  \<^item> The calls into the \<^verbatim>\<open>wandb\<close> SDK are effects on a trace: the list of the SDK
    calls completed so far. Whether a call raises is decided by a parameter, the
    backend, which may depend on the whole history.
  Messages printed to standard error are not part of the model. The constructor
  only stores the API key and the entity (from its arguments or the environment);
  the logger is the record of these two fields.
\<close>

subsection \<open>Python values\<close>

datatype 'a pyval = StrV string | IntV int | ObjV 'a

type_synonym 'v dict = "(string \<times> 'v) list"

text \<open>\<^verbatim>\<open>d[k] = v\<close>: an existing key keeps its place, a new key goes last.\<close>

fun dict_set :: "'v dict \<Rightarrow> string \<Rightarrow> 'v \<Rightarrow> 'v dict" where
  "dict_set [] k v = [(k, v)]"
| "dict_set ((k', v') # d) k v =
     (if k' = k then (k, v) # d else (k', v') # dict_set d k v)"

text \<open>\<^verbatim>\<open>{**a, **b}\<close>: the items of \<open>a\<close>, then each item of \<open>b\<close> assigned in turn.\<close>

definition dict_merge :: "'v dict \<Rightarrow> 'v dict \<Rightarrow> 'v dict" where
  "dict_merge a b = fold (\<lambda>(k, v) d. dict_set d k v) b a"

text \<open>Truth values of optional strings, lists and dicts.\<close>

fun truthy :: "'a list option \<Rightarrow> bool" where
  "truthy None = False"
| "truthy (Some xs) = (xs \<noteq> [])"

text \<open>\<^verbatim>\<open>x or []\<close>, \<^verbatim>\<open>x or {}\<close>.\<close>

fun or_empty :: "'a list option \<Rightarrow> 'a list" where
  "or_empty None = []"
| "or_empty (Some xs) = xs"

subsection \<open>The local file system\<close>

text \<open>
  A path names nothing, a directory, or a regular file. A regular file carries the
  text that reading it in text mode yields (decoded, newlines translated) and a flag
  telling that reading fails after that text (an undecodable tail).
\<close>

datatype fnode = Absent | Dir | File string bool

type_synonym filesystem = "string \<Rightarrow> fnode"

text \<open>\<^verbatim>\<open>os.path.exists\<close>\<close>

definition path_exists :: "filesystem \<Rightarrow> string \<Rightarrow> bool" where
  "path_exists fs p = (fs p \<noteq> Absent)"

text \<open>\<^verbatim>\<open>os.path.isfile\<close>\<close>

definition is_file :: "filesystem \<Rightarrow> string \<Rightarrow> bool" where
  "is_file fs p = (case fs p of File _ _ \<Rightarrow> True | _ \<Rightarrow> False)"

subsection \<open>The SDK as a trace of calls\<close>

datatype exn = UsageError | CommError | ValueError | OSError | UnicodeDecodeError

datatype artifact = Artifact (art_name: string) (art_type: string) (art_files: "string list")

text \<open>
  \<open>Init project name config tags entity\<close> is \<^verbatim>\<open>wandb.init\<close> opening a new run,
  \<open>Resume id\<close> is \<^verbatim>\<open>wandb.init(id=id, resume="must")\<close>; \<open>NewArtifact\<close>,
  \<open>AddFile\<close> are the local calls building an artifact; \<open>Log\<close>, \<open>LogArtifact\<close>
  and \<open>Finish\<close> are the methods of a run, named by its id.
\<close>

datatype 'a call =
    Init string "string option" "'a pyval dict" "string list" "string option"
  | Resume string
  | Log string "'a pyval dict"
  | NewArtifact string string
  | AddFile string string
  | LogArtifact string artifact
  | Finish string

text \<open>
  The backend: \<open>fault bk tr c\<close> is the exception call \<open>c\<close> raises after history
  \<open>tr\<close>, if any; \<open>new_id bk tr\<close> is the id given to a run created after \<open>tr\<close>.
\<close>

record 'a backend =
  fault :: "'a call list \<Rightarrow> 'a call \<Rightarrow> exn option"
  new_id :: "'a call list \<Rightarrow> string"

type_synonym ('a, 'r) outcome = "'a call list \<times> (exn + 'r)"

text \<open>One SDK call: it raises and leaves the trace, or it is recorded.\<close>

definition sdk :: "'a backend \<Rightarrow> 'a call \<Rightarrow> 'a call list \<Rightarrow> ('a, unit) outcome" where
  "sdk bk c tr = (case fault bk tr c of Some e \<Rightarrow> (tr, Inl e) | None \<Rightarrow> (tr @ [c], Inr ()))"

text \<open>Sequencing: an exception ends the function, as no \<^verbatim>\<open>try\<close> surrounds the calls.\<close>

definition seq :: "('a, 'r) outcome \<Rightarrow> ('r \<Rightarrow> 'a call list \<Rightarrow> ('a, 'q) outcome) \<Rightarrow> ('a, 'q) outcome" where
  "seq m f = (case m of (tr, Inl e) \<Rightarrow> (tr, Inl e) | (tr, Inr r) \<Rightarrow> f r tr)"

definition wandb_init ::
  "'a backend \<Rightarrow> string \<Rightarrow> string option \<Rightarrow> 'a pyval dict \<Rightarrow> string list \<Rightarrow> string option
     \<Rightarrow> 'a call list \<Rightarrow> ('a, string) outcome" where
  "wandb_init bk project name config tags entity tr =
     seq (sdk bk (Init project name config tags entity) tr) (\<lambda>_ tr'. (tr', Inr (new_id bk tr)))"

definition wandb_resume :: "'a backend \<Rightarrow> string \<Rightarrow> 'a call list \<Rightarrow> ('a, string) outcome" where
  "wandb_resume bk run_id tr = seq (sdk bk (Resume run_id) tr) (\<lambda>_ tr'. (tr', Inr run_id))"

definition run_log :: "'a backend \<Rightarrow> string \<Rightarrow> 'a pyval dict \<Rightarrow> 'a call list \<Rightarrow> ('a, unit) outcome" where
  "run_log bk run d tr = sdk bk (Log run d) tr"

definition run_log_artifact :: "'a backend \<Rightarrow> string \<Rightarrow> artifact \<Rightarrow> 'a call list \<Rightarrow> ('a, unit) outcome" where
  "run_log_artifact bk run a tr = sdk bk (LogArtifact run a) tr"

definition run_finish :: "'a backend \<Rightarrow> string \<Rightarrow> 'a call list \<Rightarrow> ('a, unit) outcome" where
  "run_finish bk run tr = sdk bk (Finish run) tr"

definition new_artifact :: "'a backend \<Rightarrow> string \<Rightarrow> string \<Rightarrow> 'a call list \<Rightarrow> ('a, artifact) outcome" where
  "new_artifact bk name ty tr =
     seq (sdk bk (NewArtifact name ty) tr) (\<lambda>_ tr'. (tr', Inr (Artifact name ty [])))"

text \<open>
  \<^verbatim>\<open>artifact.add_file(path)\<close> raises \<^verbatim>\<open>ValueError\<close> when the path is not a regular
  file; otherwise the file joins the artifact.
\<close>

definition add_file ::
  "'a backend \<Rightarrow> filesystem \<Rightarrow> artifact \<Rightarrow> string \<Rightarrow> 'a call list \<Rightarrow> ('a, artifact) outcome" where
  "add_file bk fs a path tr =
     (if \<not> is_file fs path then (tr, Inl ValueError)
      else seq (sdk bk (AddFile (art_name a) path) tr)
             (\<lambda>_ tr'. (tr', Inr (Artifact (art_name a) (art_type a) (art_files a @ [path])))))"

subsection \<open>\<^verbatim>\<open>init_run\<close>\<close>

record logger =
  api_key :: "string option"
  entity :: "string option"

text \<open>
  Line 56: \<^verbatim>\<open>run_name = name or f"chtc-job-{job_id}" if job_id else None\<close>. The
  conditional expression binds weaker than \<^verbatim>\<open>or\<close>, so the test on \<^verbatim>\<open>job_id\<close>
  governs the whole of \<^verbatim>\<open>name or ...\<close>.
\<close>

definition run_name :: "string option \<Rightarrow> string option \<Rightarrow> string option" where
  "run_name name job_id =
     (if truthy job_id
      then (if truthy name then name else Some (''chtc-job-'' @ or_empty job_id))
      else None)"

definition run_config :: "'a pyval dict option \<Rightarrow> string option \<Rightarrow> 'a pyval dict" where
  "run_config config job_id =
     (let config0 = or_empty config;
          config1 = (if truthy job_id
                     then dict_set config0 ''htcondor_job_id'' (StrV (or_empty job_id))
                     else config0)
      in dict_set config1 ''cluster'' (StrV ''chtc''))"

definition init_run ::
  "logger \<Rightarrow> 'a backend \<Rightarrow> string \<Rightarrow> string option \<Rightarrow> 'a pyval dict option \<Rightarrow> string list option
     \<Rightarrow> string option \<Rightarrow> 'a call list \<Rightarrow> ('a, string) outcome" where
  "init_run self bk project name config tags job_id tr =
     wandb_init bk project (run_name name job_id) (run_config config job_id)
       (or_empty tags @ [''chtc'']) (entity self) tr"

subsection \<open>Strings\<close>

text \<open>
  The characters \<^verbatim>\<open>str.strip\<close> removes and \<^verbatim>\<open>\s\<close> matches, among the ASCII
  code points: tab, line feed, vertical tab, form feed, carriage return, the four
  separators \<open>0x1C\<close> to \<open>0x1F\<close>, and the space.
\<close>

definition is_space :: "char \<Rightarrow> bool" where
  "is_space c = (c \<in> set [CHR 0x09, CHR 0x0A, CHR 0x0B, CHR 0x0C, CHR 0x0D,
                          CHR 0x1C, CHR 0x1D, CHR 0x1E, CHR 0x1F, CHR 0x20])"

definition is_digit :: "char \<Rightarrow> bool" where
  "is_digit c = (c \<in> set ''0123456789'')"

definition lstrip :: "string \<Rightarrow> string" where
  "lstrip s = dropWhile is_space s"

definition rstrip :: "string \<Rightarrow> string" where
  "rstrip s = rev (dropWhile is_space (rev s))"

text \<open>\<^verbatim>\<open>s.strip()\<close>\<close>

definition strip :: "string \<Rightarrow> string" where
  "strip s = lstrip (rstrip s)"

definition to_lower :: "char \<Rightarrow> char" where
  "to_lower c =
     (if (65::nat) \<le> of_char c \<and> of_char c \<le> (90::nat) then char_of (of_char c + (32::nat)) else c)"

text \<open>\<^verbatim>\<open>s.lower()\<close>\<close>

definition lower :: "string \<Rightarrow> string" where
  "lower s = map to_lower s"

text \<open>\<^verbatim>\<open>s.startswith(p)\<close>\<close>

definition startswith :: "string \<Rightarrow> string \<Rightarrow> bool" where
  "startswith s p = (take (length p) s = p)"

text \<open>\<^verbatim>\<open>s.split(c, 1)\<close> for a string that contains \<open>c\<close>: the text before and after the first \<open>c\<close>.\<close>

definition split_first :: "char \<Rightarrow> string \<Rightarrow> string \<times> string" where
  "split_first c s = (takeWhile (\<lambda>x. x \<noteq> c) s, tl (dropWhile (\<lambda>x. x \<noteq> c) s))"

text \<open>\<^verbatim>\<open>s.split(c)\<close>: all the pieces between occurrences of \<open>c\<close>.\<close>

fun split_on :: "char \<Rightarrow> string \<Rightarrow> string list" where
  "split_on c [] = [[]]"
| "split_on c (x # xs) =
     (if x = c then [] # split_on c xs
      else (case split_on c xs of p # ps \<Rightarrow> (x # p) # ps | [] \<Rightarrow> [[x]]))"

text \<open>
  The lines a text file yields when iterated: each ends with its line feed, except
  possibly the last; no empty line is yielded at the end of the text.
\<close>

fun lines_from :: "string \<Rightarrow> string \<Rightarrow> string list" where
  "lines_from acc [] = (if acc = [] then [] else [acc])"
| "lines_from acc (c # cs) =
     (if c = CHR 0x0A then (acc @ [c]) # lines_from [] cs else lines_from (acc @ [c]) cs)"

definition file_lines :: "string \<Rightarrow> string list" where
  "file_lines text = lines_from [] text"

text \<open>
  \<^verbatim>\<open>int(s)\<close> on the strings that reach it here, runs of decimal digits. The
  interpreter refuses a decimal string of more than \<^verbatim>\<open>sys.int_max_str_digits\<close>
  digits, 4300 by default, leading zeros counted, with a \<^verbatim>\<open>ValueError\<close>. Any
  string that is not a run of digits is mapped to \<open>None\<close> (\<^verbatim>\<open>ValueError\<close>) as
  well; the patterns below capture digits only, so the other literal forms
  \<^verbatim>\<open>int\<close> accepts never occur.
\<close>

definition int_max_str_digits :: nat where
  "int_max_str_digits = 4300"

definition digit_val :: "char \<Rightarrow> int" where
  "digit_val c = int (of_char c) - 48"

definition decimal :: "string \<Rightarrow> int" where
  "decimal s = fold (\<lambda>c n. 10 * n + digit_val c) s 0"

definition py_int :: "string \<Rightarrow> int option" where
  "py_int s =
     (if s \<noteq> [] \<and> list_all is_digit s \<and> length s \<le> int_max_str_digits
      then Some (decimal s) else None)"

subsection \<open>\<^verbatim>\<open>_parse_submit_file\<close>\<close>

text \<open>The body of the loop, lines 172 to 187, as a step on \<^verbatim>\<open>config\<close>.\<close>

definition submit_line :: "string \<Rightarrow> string dict \<Rightarrow> string dict" where
  "submit_line raw config =
     (let line = strip raw in
      if line = [] \<or> startswith line ''#'' then config
      else if CHR ''='' \<in> set line then
        (let (key0, value0) = split_first (CHR ''='') line;
             key = lower (strip key0);
             val = strip value0
         in if key \<in> set [''request_cpus'', ''request_memory'', ''request_disk'']
            then dict_set config key val
            else if key = ''executable'' then dict_set config ''executable'' val
            else if key = ''universe'' then dict_set config ''universe'' val
            else config)
      else config)"

text \<open>
  The \<^verbatim>\<open>try\<close> block: the config built when the block ends, and the exception that
  ended it, if any. \<^verbatim>\<open>open\<close> raises on a missing path or a directory; the loop
  raises after the readable text of a file with an undecodable tail.
\<close>

definition read_submit_file :: "filesystem \<Rightarrow> string \<Rightarrow> string dict \<times> exn option" where
  "read_submit_file fs submit_file =
     (case fs submit_file of
        Absent \<Rightarrow> ([], Some OSError)
      | Dir \<Rightarrow> ([], Some OSError)
      | File text bad \<Rightarrow>
          (fold submit_line (file_lines text) [], if bad then Some UnicodeDecodeError else None))"

text \<open>The \<^verbatim>\<open>except Exception\<close> clause prints a warning; the config is returned either way.\<close>

definition parse_submit_file :: "filesystem \<Rightarrow> string \<Rightarrow> exn + string dict" where
  "parse_submit_file fs submit_file =
     (case read_submit_file fs submit_file of (config, _) \<Rightarrow> Inr config)"

subsection \<open>Regular expressions\<close>

text \<open>
  The fragment of \<^verbatim>\<open>re\<close> the three patterns use, with the backtracking order of the
  library: a pattern is a sequence of items, a literal character, a greedy repetition
  of a character class with a least count (\<^verbatim>\<open>\s*\<close>, \<^verbatim>\<open>\d+\<close>), a lazy repetition
  (\<^verbatim>\<open>.*?\<close> under \<^verbatim>\<open>re.DOTALL\<close>), and the two ends of group 1.
\<close>

datatype cls = AnyChar | Space | Digit

fun in_cls :: "cls \<Rightarrow> char \<Rightarrow> bool" where
  "in_cls AnyChar c = True"
| "in_cls Space c = is_space c"
| "in_cls Digit c = is_digit c"

datatype item = Lit char | Greedy cls nat | Lazy cls | Open | Close

text \<open>
  \<open>rmatch items start cap s\<close> matches \<open>items\<close> at the head of \<open>s\<close> and returns the
  text of group 1 for the first way that succeeds; \<open>start\<close> is the input from where
  the group opened, \<open>cap\<close> the text of the group once closed. A greedy repetition
  first takes one more character and gives it back when the rest fails; a lazy one
  first tries the rest and takes one more character when that fails.
\<close>

fun rmatch :: "item list \<Rightarrow> string \<Rightarrow> string \<Rightarrow> string \<Rightarrow> string option" where
  "rmatch [] start cap s = Some cap"
| "rmatch (Lit c # r) start cap [] = None"
| "rmatch (Lit c # r) start cap (x # xs) = (if x = c then rmatch r start cap xs else None)"
| "rmatch (Open # r) start cap s = rmatch r s cap s"
| "rmatch (Close # r) start cap s = rmatch r start (take (length start - length s) start) s"
| "rmatch (Greedy k n # r) start cap [] = (if n = 0 then rmatch r start cap [] else None)"
| "rmatch (Greedy k n # r) start cap (x # xs) =
     (if in_cls k x
      then (case rmatch (Greedy k (n - 1) # r) start cap xs of
              Some g \<Rightarrow> Some g
            | None \<Rightarrow> if n = 0 then rmatch r start cap (x # xs) else None)
      else if n = 0 then rmatch r start cap (x # xs) else None)"
| "rmatch (Lazy k # r) start cap [] = rmatch r start cap []"
| "rmatch (Lazy k # r) start cap (x # xs) =
     (case rmatch r start cap (x # xs) of
        Some g \<Rightarrow> Some g
      | None \<Rightarrow> if in_cls k x then rmatch (Lazy k # r) start cap xs else None)"

text \<open>\<^verbatim>\<open>re.search\<close>: the match at the leftmost position that has one; its group 1.\<close>

fun re_search :: "item list \<Rightarrow> string \<Rightarrow> string option" where
  "re_search items [] = rmatch items [] [] []"
| "re_search items (x # xs) =
     (case rmatch items (x # xs) [] (x # xs) of
        Some g \<Rightarrow> Some g
      | None \<Rightarrow> re_search items xs)"

definition lits :: "string \<Rightarrow> item list" where
  "lits s = map Lit s"

text \<open>\<^verbatim>\<open>Job terminated.*?run time.*?(\d+:\d+:\d+)\<close> with \<^verbatim>\<open>re.DOTALL\<close>\<close>

definition runtime_re :: "item list" where
  "runtime_re = lits ''Job terminated'' @ [Lazy AnyChar] @ lits ''run time'' @
     [Lazy AnyChar, Open, Greedy Digit 1, Lit (CHR '':''), Greedy Digit 1, Lit (CHR '':''),
      Greedy Digit 1, Close]"

text \<open>\<^verbatim>\<open>Memory \(MB\)\s*:\s*(\d+)\<close>\<close>

definition memory_re :: "item list" where
  "memory_re = lits ''Memory (MB)'' @
     [Greedy Space 0, Lit (CHR '':''), Greedy Space 0, Open, Greedy Digit 1, Close]"

text \<open>\<^verbatim>\<open>Disk \(KB\)\s*:\s*(\d+)\<close>\<close>

definition disk_re :: "item list" where
  "disk_re = lits ''Disk (KB)'' @
     [Greedy Space 0, Lit (CHR '':''), Greedy Space 0, Open, Greedy Digit 1, Close]"

subsection \<open>\<^verbatim>\<open>_parse_log_file\<close>\<close>

text \<open>
  Lines 215 to 217: the captured text is split at the colons, the three pieces are
  converted and combined; a wrong number of pieces or a failed conversion raises.
\<close>

definition runtime_seconds :: "string \<Rightarrow> exn + int" where
  "runtime_seconds time_str =
     (case map py_int (split_on (CHR '':'') time_str) of
        [Some h, Some m, Some s] \<Rightarrow> Inr (h * 3600 + m * 60 + s)
      | _ \<Rightarrow> Inl ValueError)"

definition int_group :: "string \<Rightarrow> exn + int" where
  "int_group g = (case py_int g of Some n \<Rightarrow> Inr n | None \<Rightarrow> Inl ValueError)"

text \<open>One \<^verbatim>\<open>if match: metrics[key] = ...\<close> step; the conversion may raise.\<close>

definition set_if_match ::
  "string option \<Rightarrow> (string \<Rightarrow> exn + int) \<Rightarrow> string \<Rightarrow> int dict \<Rightarrow> exn + int dict" where
  "set_if_match m conv key metrics =
     (case m of
        None \<Rightarrow> Inr metrics
      | Some g \<Rightarrow> (case conv g of Inl e \<Rightarrow> Inl e | Inr n \<Rightarrow> Inr (dict_set metrics key n)))"

text \<open>Lines 213 to 227, on the content read.\<close>

definition log_metrics :: "string \<Rightarrow> exn + int dict" where
  "log_metrics content =
     (case set_if_match (re_search runtime_re content) runtime_seconds ''runtime_seconds'' [] of
        Inl e \<Rightarrow> Inl e
      | Inr m1 \<Rightarrow>
         (case set_if_match (re_search memory_re content) int_group ''memory_mb'' m1 of
            Inl e \<Rightarrow> Inl e
          | Inr m2 \<Rightarrow> set_if_match (re_search disk_re content) int_group ''disk_kb'' m2))"

text \<open>The \<^verbatim>\<open>try\<close> block: \<^verbatim>\<open>open\<close>, \<^verbatim>\<open>f.read()\<close>, then the three searches.\<close>

definition read_log_file :: "filesystem \<Rightarrow> string \<Rightarrow> exn + int dict" where
  "read_log_file fs log_file =
     (case fs log_file of
        Absent \<Rightarrow> Inl OSError
      | Dir \<Rightarrow> Inl OSError
      | File text bad \<Rightarrow> if bad then Inl UnicodeDecodeError else log_metrics text)"

text \<open>
  Any exception of the block gives \<^verbatim>\<open>None\<close>; otherwise line 233 returns the metrics
  when there are some and \<^verbatim>\<open>None\<close> when the dict is empty.
\<close>

definition parse_log_file :: "filesystem \<Rightarrow> string \<Rightarrow> exn + int dict option" where
  "parse_log_file fs log_file =
     (case read_log_file fs log_file of
        Inl e \<Rightarrow> Inr None
      | Inr metrics \<Rightarrow> Inr (if metrics \<noteq> [] then Some metrics else None))"

subsection \<open>\<^verbatim>\<open>log_job_submission\<close>\<close>

text \<open>The values of a parsed dict as Python values of a config or of metrics.\<close>

definition str_items :: "string dict \<Rightarrow> 'a pyval dict" where
  "str_items d = map (\<lambda>(k, v). (k, StrV v)) d"

definition int_items :: "int dict \<Rightarrow> 'a pyval dict" where
  "int_items d = map (\<lambda>(k, v). (k, IntV v)) d"

definition log_job_submission ::
  "logger \<Rightarrow> 'a backend \<Rightarrow> filesystem \<Rightarrow> string \<Rightarrow> string \<Rightarrow> string \<Rightarrow> 'a pyval dict option
     \<Rightarrow> 'a call list \<Rightarrow> ('a, string) outcome" where
  "log_job_submission self bk fs project submit_file job_id config tr =
     (case parse_submit_file fs submit_file of
        Inl e \<Rightarrow> (tr, Inl e)
      | Inr submit_config \<Rightarrow>
          (let full_config = dict_merge (str_items submit_config) (or_empty config) in
           seq (init_run self bk project None (Some full_config) None (Some job_id) tr) (\<lambda>run tr.
           seq (new_artifact bk (''submit-'' @ job_id) ''submit_file'' tr) (\<lambda>artifact tr.
           seq (add_file bk fs artifact submit_file tr) (\<lambda>artifact tr.
           seq (run_log_artifact bk run artifact tr) (\<lambda>_ tr.
           seq (run_finish bk run tr) (\<lambda>_ tr.
           (tr, Inr run))))))))"

subsection \<open>\<^verbatim>\<open>log_job_completion\<close>\<close>

text \<open>Lines 151 to 153: the loop over the output files.\<close>

fun add_existing ::
  "'a backend \<Rightarrow> filesystem \<Rightarrow> artifact \<Rightarrow> string list \<Rightarrow> 'a call list \<Rightarrow> ('a, artifact) outcome" where
  "add_existing bk fs artifact [] tr = (tr, Inr artifact)"
| "add_existing bk fs artifact (output_file # rest) tr =
     (if path_exists fs output_file
      then (case add_file bk fs artifact output_file tr of
              (tr', Inl e) \<Rightarrow> (tr', Inl e)
            | (tr', Inr artifact') \<Rightarrow> add_existing bk fs artifact' rest tr')
      else add_existing bk fs artifact rest tr)"

text \<open>Lines 134 to 142: the scheduler log.\<close>

definition log_the_log ::
  "'a backend \<Rightarrow> filesystem \<Rightarrow> string \<Rightarrow> string \<Rightarrow> string \<Rightarrow> 'a call list \<Rightarrow> ('a, unit) outcome" where
  "log_the_log bk fs run run_id log_file tr =
     (case parse_log_file fs log_file of
        Inl e \<Rightarrow> (tr, Inl e)
      | Inr resource_usage \<Rightarrow>
          seq (if truthy resource_usage
               then run_log bk run (int_items (or_empty resource_usage)) tr
               else (tr, Inr ())) (\<lambda>_ tr.
          seq (new_artifact bk (''logs-'' @ run_id) ''logs'' tr) (\<lambda>artifact tr.
          seq (add_file bk fs artifact log_file tr) (\<lambda>artifact tr.
          run_log_artifact bk run artifact tr))))"

text \<open>Lines 149 to 154: the output files.\<close>

definition log_outputs ::
  "'a backend \<Rightarrow> filesystem \<Rightarrow> string \<Rightarrow> string \<Rightarrow> string list \<Rightarrow> 'a call list \<Rightarrow> ('a, unit) outcome" where
  "log_outputs bk fs run run_id output_files tr =
     seq (new_artifact bk (''outputs-'' @ run_id) ''results'' tr) (\<lambda>artifact tr.
     seq (add_existing bk fs artifact output_files tr) (\<lambda>artifact tr.
     run_log_artifact bk run artifact tr))"

definition log_job_completion ::
  "logger \<Rightarrow> 'a backend \<Rightarrow> filesystem \<Rightarrow> string \<Rightarrow> string option \<Rightarrow> string list option
     \<Rightarrow> 'a pyval dict option \<Rightarrow> 'a call list \<Rightarrow> ('a, unit) outcome" where
  "log_job_completion self bk fs run_id log_file output_files metrics tr =
     seq (wandb_resume bk run_id tr) (\<lambda>run tr.
     seq (if truthy log_file \<and> path_exists fs (or_empty log_file)
          then log_the_log bk fs run run_id (or_empty log_file) tr
          else (tr, Inr ())) (\<lambda>_ tr.
     seq (if truthy metrics then run_log bk run (or_empty metrics) tr else (tr, Inr ())) (\<lambda>_ tr.
     seq (if truthy output_files
          then log_outputs bk fs run run_id (or_empty output_files) tr
          else (tr, Inr ())) (\<lambda>_ tr.
     run_finish bk run tr))))"

subsection \<open>Reading a trace\<close>

text \<open>The configs of the runs a trace creates, and whether a trace finishes a run.\<close>

fun run_configs :: "'a call list \<Rightarrow> 'a pyval dict list" where
  "run_configs [] = []"
| "run_configs (Init project name config tags ent # cs) = config # run_configs cs"
| "run_configs (c # cs) = run_configs cs"

fun run_names :: "'a call list \<Rightarrow> string option list" where
  "run_names [] = []"
| "run_names (Init project name config tags ent # cs) = name # run_names cs"
| "run_names (c # cs) = run_names cs"

fun finishes :: "'a call list \<Rightarrow> string list" where
  "finishes [] = []"
| "finishes (Finish run # cs) = run # finishes cs"
| "finishes (c # cs) = finishes cs"

subsection \<open>Example inputs\<close>

definition self0 :: logger where
  "self0 = \<lparr>api_key = None, entity = None\<rparr>"

text \<open>A backend that accepts every call, one that refuses to log, one that cannot resume.\<close>

definition backend_ok :: "unit backend" where
  "backend_ok = \<lparr>fault = (\<lambda>tr c. None), new_id = (\<lambda>tr. ''run1'')\<rparr>"

definition backend_log_down :: "unit backend" where
  "backend_log_down =
     \<lparr>fault = (\<lambda>tr c. case c of Log run d \<Rightarrow> Some CommError | _ \<Rightarrow> None),
      new_id = (\<lambda>tr. ''run1'')\<rparr>"

definition backend_no_resume :: "unit backend" where
  "backend_no_resume =
     \<lparr>fault = (\<lambda>tr c. case c of Resume run \<Rightarrow> Some UsageError | _ \<Rightarrow> None),
      new_id = (\<lambda>tr. ''run1'')\<rparr>"

definition submit_text :: string where
  "submit_text =
     ''# resources'' @ [CHR 0x0A] @
     ''Executable = /bin/run.sh  '' @ [CHR 0x0A] @
     ''  request_cpus=4'' @ [CHR 0x0A] @
     ''queue'' @ [CHR 0x0A] @
     ''arguments = a b'' @ [CHR 0x0A] @
     ''universe = vanilla''"

definition log_text :: string where
  "log_text =
     ''005 (123.000.000) Job terminated.'' @ [CHR 0x0A] @
     ''  run time 01:02:03'' @ [CHR 0x0A] @
     ''Memory (MB)        : 2048'' @ [CHR 0x0A] @
     ''Disk (KB)            : 512000'' @ [CHR 0x0A]"

definition fs0 :: filesystem where
  "fs0 p =
     (if p = ''submit.txt'' then File submit_text False
      else if p = ''job.log'' then File log_text False
      else if p = ''quiet.log'' then File ''nothing to see'' False
      else if p = ''mem.log'' then File ''Memory (MB) : 7'' False
      else if p = ''out.csv'' then File ''a,b'' False
      else if p = ''outdir'' then Dir
      else Absent)"

subsection \<open>Runs of digits\<close>

text \<open>A non-empty run of decimal digits, the shape of \<^verbatim>\<open>\d+\<close>.\<close>

definition digits :: "string \<Rightarrow> bool" where
  "digits s = (s \<noteq> [] \<and> list_all is_digit s)"

text \<open>
  The capture of a pattern on a text can be converted: there is no match, or each
  number of the capture (the capture itself, or its pieces between colons) has at
  most \<^verbatim>\<open>sys.int_max_str_digits\<close> digits.
\<close>

definition capture_ok :: "item list \<Rightarrow> string \<Rightarrow> bool" where
  "capture_ok re text =
     (case re_search re text of
        None \<Rightarrow> True
      | Some g \<Rightarrow> list_all (\<lambda>p. length p \<le> int_max_str_digits) (split_on (CHR '':'') g))"

text \<open>A log with a runtime of one second and a memory figure of 4301 digits.\<close>

definition long_digits :: string where
  "long_digits = replicate 4300 (CHR ''1'')"

definition big_log_text :: string where
  "big_log_text = ''Job terminated run time 0:00:01 Memory (MB) : 1'' @ long_digits"

definition fs_big :: filesystem where
  "fs_big p = (if p = ''big.log'' then File big_log_text False else Absent)"

subsection \<open>Submit-descriptor extraction as the specification words it\<close>

text \<open>
  The specification's algorithm, line by line: a line that is blank, that is a
  \<open>#\<close>-prefixed comment or that holds no \<open>=\<close> gives nothing; any other line is
  split at its first \<open>=\<close>, the key is the text before it, lower-cased and trimmed,
  the value the text after it, trimmed; the pair is kept when the key is in the
  allow-list.
\<close>

definition allow_list :: "string list" where
  "allow_list = [''request_cpus'', ''request_memory'', ''request_disk'', ''executable'', ''universe'']"

definition spec_line_pair :: "string \<Rightarrow> (string \<times> string) option" where
  "spec_line_pair line =
     (if strip line = [] \<or> startswith line ''#'' \<or> CHR ''='' \<notin> set line then None
      else (let key = strip (lower (takeWhile (\<lambda>c. c \<noteq> CHR ''='') line));
                val = strip (tl (dropWhile (\<lambda>c. c \<noteq> CHR ''='') line))
            in if key \<in> set allow_list then Some (key, val) else None))"

definition spec_submit_pairs :: "string \<Rightarrow> (string \<times> string) list" where
  "spec_submit_pairs text = List.map_filter spec_line_pair (file_lines text)"

section \<open>Properties\<close>

subsection \<open>Dicts and traces\<close>

lemma map_of_dict_set [simp]:
  "map_of (dict_set d k v) k' = (if k' = k then Some v else map_of d k')"
  by (induction d) auto

lemma submission_trace:
  assumes "log_job_submission self bk fs project submit_file job_id config tr = (tr', r)"
    and "parse_submit_file fs submit_file = Inr sc"
    and "I = Init project (run_name None (Some job_id)) (run_config (Some (dict_merge (str_items sc) (or_empty config))) (Some job_id)) [''chtc''] (entity self)"
    and "N = NewArtifact (''submit-'' @ job_id) ''submit_file''"
    and "A = AddFile (''submit-'' @ job_id) submit_file"
    and "L = LogArtifact (new_id bk tr) (Artifact (''submit-'' @ job_id) ''submit_file'' [submit_file])"
    and "F = Finish (new_id bk tr)"
  shows "(r = Inr (new_id bk tr) \<and> tr' = tr @ [I, N, A, L, F]) \<or>
       ((\<exists>e. r = Inl e) \<and> tr' \<in> {tr, tr @ [I], tr @ [I, N], tr @ [I, N, A], tr @ [I, N, A, L]})"
  using assms
  by (auto simp: log_job_submission_def Let_def init_run_def wandb_init_def seq_def sdk_def new_artifact_def add_file_def run_log_artifact_def run_finish_def split: option.splits if_splits)

lemma add_existing_trace:
  "add_existing bk fs a ps tr = (tr', r) \<Longrightarrow>
    \<exists>evs. tr' = tr @ evs \<and> finishes evs = [] \<and> run_configs evs = [] \<and>
      (\<forall>a'. r = Inr a' \<longrightarrow> a' = Artifact (art_name a) (art_type a) (art_files a @ filter (path_exists fs) ps))"
proof (induction ps arbitrary: a tr)
  case Nil
  then show ?case by auto
next
  case (Cons p ps)
  show ?case
  proof (cases "path_exists fs p")
    case False
    with Cons show ?thesis by simp
  next
    case True
    show ?thesis
    proof (cases "add_file bk fs a p tr")
      case (Pair t1 r1)
      show ?thesis
      proof (cases r1)
        case (Inl e)
        with Pair True Cons.prems show ?thesis
          by (auto simp: add_file_def seq_def sdk_def split: if_splits option.splits)
      next
        case (Inr a1)
        with Pair True Cons.prems have rest: "add_existing bk fs a1 ps t1 = (tr', r)" by simp
        from Pair Inr have a1: "a1 = Artifact (art_name a) (art_type a) (art_files a @ [p])" and t1: "t1 = tr @ [AddFile (art_name a) p]"
          by (auto simp: add_file_def seq_def sdk_def split: if_splits option.splits)
        from Cons.IH[OF rest] obtain evs where
          "tr' = t1 @ evs" "finishes evs = []" "run_configs evs = []"
          "\<forall>a'. r = Inr a' \<longrightarrow> a' = Artifact (art_name a1) (art_type a1) (art_files a1 @ filter (path_exists fs) ps)"
          by blast
        with a1 t1 True show ?thesis
          by (intro exI[of _ "AddFile (art_name a) p # evs"]) auto
      qed
    qed
  qed
qed


lemma finishes_append [simp]: "finishes (xs @ ys) = finishes xs @ finishes ys"
  by (induction xs rule: finishes.induct) auto

lemma run_configs_append [simp]: "run_configs (xs @ ys) = run_configs xs @ run_configs ys"
  by (induction xs rule: run_configs.induct) auto

lemma log_the_log_trace:
  "log_the_log bk fs run run_id lf tr = (tr', r) \<Longrightarrow>
     \<exists>evs. tr' = tr @ evs \<and> finishes evs = [] \<and> run_configs evs = []"
  by (auto simp: log_the_log_def parse_log_file_def seq_def sdk_def run_log_def new_artifact_def
        add_file_def run_log_artifact_def split: option.splits if_splits sum.splits)

lemma log_outputs_trace:
  assumes "log_outputs bk fs run run_id outs tr = (tr', r)"
  shows "\<exists>evs. tr' = tr @ evs \<and> finishes evs = [] \<and> run_configs evs = [] \<and>
     (r = Inr () \<longrightarrow> LogArtifact run (Artifact (''outputs-'' @ run_id) ''results'' (filter (path_exists fs) outs)) \<in> set evs)"
proof (cases "fault bk tr (NewArtifact (''outputs-'' @ run_id) ''results'')")
  case (Some e)
  with assms show ?thesis by (auto simp: log_outputs_def new_artifact_def seq_def sdk_def)
next
  case None
  let ?N = "NewArtifact (''outputs-'' @ run_id) ''results''"
  obtain t1 r1 where ae: "add_existing bk fs (Artifact (''outputs-'' @ run_id) ''results'' []) outs (tr @ [?N]) = (t1, r1)"
    by (cases "add_existing bk fs (Artifact (''outputs-'' @ run_id) ''results'' []) outs (tr @ [?N])") auto
  from add_existing_trace[OF ae] obtain evs where evs:
    "t1 = (tr @ [?N]) @ evs" "finishes evs = []" "run_configs evs = []"
    "\<forall>a'. r1 = Inr a' \<longrightarrow> a' = Artifact (''outputs-'' @ run_id) ''results'' (filter (path_exists fs) outs)"
    by auto
  show ?thesis
  proof (cases r1)
    case (Inl e)
    with assms None ae evs show ?thesis
      by (auto simp: log_outputs_def new_artifact_def seq_def sdk_def)
  next
    case (Inr a1)
    with assms None ae evs show ?thesis
      by (auto simp: log_outputs_def new_artifact_def seq_def sdk_def run_log_artifact_def split: option.splits)
  qed
qed

lemma completion_trace:
  assumes "log_job_completion self bk fs run_id lf outs ms tr = (tr', r)"
  shows "\<exists>evs. tr' = tr @ evs \<and> run_configs evs = [] \<and>
     (case r of Inr _ \<Rightarrow> finishes evs = [run_id] \<and> last evs = Finish run_id | Inl e \<Rightarrow> finishes evs = []) \<and>
     (r = Inr () \<and> truthy outs \<longrightarrow>
        LogArtifact run_id (Artifact (''outputs-'' @ run_id) ''results''
          (filter (path_exists fs) (or_empty outs))) \<in> set evs)"
proof (cases "fault bk tr (Resume run_id)")
  case (Some e)
  with assms show ?thesis by (auto simp: log_job_completion_def wandb_resume_def seq_def sdk_def)
next
  case None
  let ?t0 = "tr @ [Resume run_id]"
  define A where "A = (if truthy lf \<and> path_exists fs (or_empty lf)
          then log_the_log bk fs run_id run_id (or_empty lf) ?t0
          else (?t0, Inr ()))"
  obtain t1 r1 where A: "A = (t1, r1)" by (cases A) auto
  have "\<exists>e1. t1 = ?t0 @ e1 \<and> finishes e1 = [] \<and> run_configs e1 = []"
    using A log_the_log_trace[of bk fs run_id run_id "or_empty lf" ?t0 t1 r1]
    by (auto simp: A_def split: if_splits)
  then obtain e1 where e1: "t1 = ?t0 @ e1" "finishes e1 = []" "run_configs e1 = []" by blast
  from assms None A have step1:
    "seq (t1, r1) (\<lambda>_ tr.
     seq (if truthy ms then run_log bk run_id (or_empty ms) tr else (tr, Inr ())) (\<lambda>_ tr.
     seq (if truthy outs
          then log_outputs bk fs run_id run_id (or_empty outs) tr
          else (tr, Inr ())) (\<lambda>_ tr.
     run_finish bk run_id tr))) = (tr', r)"
    by (simp add: log_job_completion_def wandb_resume_def seq_def sdk_def A_def)
  show ?thesis
  proof (cases r1)
    case (Inl e)
    with step1 e1 show ?thesis by (auto simp: seq_def)
  next
    case (Inr u)
    define B where "B = (if truthy ms then run_log bk run_id (or_empty ms) t1 else (t1, Inr ()))"
    obtain t2 r2 where B: "B = (t2, r2)" by (cases B) auto
    have "\<exists>e2. t2 = t1 @ e2 \<and> finishes e2 = [] \<and> run_configs e2 = []"
      using B by (auto simp: B_def run_log_def sdk_def split: if_splits option.splits)
    then obtain e2 where e2: "t2 = t1 @ e2" "finishes e2 = []" "run_configs e2 = []" by blast
    from step1 Inr B have step2:
      "seq (t2, r2) (\<lambda>_ tr.
        seq (if truthy outs
          then log_outputs bk fs run_id run_id (or_empty outs) tr
          else (tr, Inr ())) (\<lambda>_ tr.
        run_finish bk run_id tr)) = (tr', r)"
      by (simp add: seq_def B_def)
    show ?thesis
    proof (cases r2)
      case (Inl e)
      with step2 e1 e2 show ?thesis by (auto simp: seq_def)
    next
      case (Inr u2)
      define C where "C = (if truthy outs
          then log_outputs bk fs run_id run_id (or_empty outs) t2
          else (t2, Inr ()))"
      obtain t3 r3 where C: "C = (t3, r3)" by (cases C) auto
      have "\<exists>e3. t3 = t2 @ e3 \<and> finishes e3 = [] \<and> run_configs e3 = [] \<and>
          (r3 = Inr () \<and> truthy outs \<longrightarrow>
             LogArtifact run_id (Artifact (''outputs-'' @ run_id) ''results''
               (filter (path_exists fs) (or_empty outs))) \<in> set e3)"
        using C log_outputs_trace[of bk fs run_id run_id "or_empty outs" t2 t3 r3]
        by (auto simp: C_def split: if_splits)
      then obtain e3 where e3: "t3 = t2 @ e3" "finishes e3 = []" "run_configs e3 = []"
        "r3 = Inr () \<and> truthy outs \<longrightarrow>
             LogArtifact run_id (Artifact (''outputs-'' @ run_id) ''results''
               (filter (path_exists fs) (or_empty outs))) \<in> set e3" by blast
      from step2 Inr C have step3: "seq (t3, r3) (\<lambda>_ tr. run_finish bk run_id tr) = (tr', r)"
        by (simp add: seq_def C_def)
      show ?thesis
      proof (cases r3)
        case (Inl e)
        with step3 e1 e2 e3 show ?thesis by (auto simp: seq_def)
      next
        case (Inr u3)
        with step3 e1 e2 e3 show ?thesis
          by (auto simp: seq_def run_finish_def sdk_def split: option.splits)
      qed
    qed
  qed
qed

lemma add_existing_filter:
  "add_existing bk fs a ps tr = add_existing bk fs a (filter (path_exists fs) ps) tr"
  by (induction ps arbitrary: a tr) (auto split: prod.splits sum.splits)

lemma map_of_fold_dict_set:
  "distinct (map fst b) \<Longrightarrow>
   map_of (fold (\<lambda>(k, v) d. dict_set d k v) b a) k
     = (case map_of b k of Some v \<Rightarrow> Some v | None \<Rightarrow> map_of a k)"
proof (induction b arbitrary: a)
  case Nil
  then show ?case by simp
next
  case (Cons x b)
  obtain k' v' where x: "x = (k', v')" by (cases x)
  from Cons.prems x have d: "distinct (map fst b)" and nk: "k' \<notin> fst ` set b" by auto
  from nk have "map_of b k' = None" by (simp add: map_of_eq_None_iff)
  with Cons.IH[OF d, of "dict_set a k' v'"] x show ?case
    by (auto split: option.splits)
qed

lemma map_of_dict_merge:
  "distinct (map fst b) \<Longrightarrow>
   map_of (dict_merge a b) k = (case map_of b k of Some v \<Rightarrow> Some v | None \<Rightarrow> map_of a k)"
  by (simp add: dict_merge_def map_of_fold_dict_set)

lemma map_of_str_items: "map_of (str_items d) k = map_option StrV (map_of d k)"
  by (induction d) (auto simp: str_items_def)

subsection \<open>A run that cannot be resumed\<close>

text \<open>
  Claim C2. When the backend refuses to resume the given run id under the "must"
  policy, \<^verbatim>\<open>log_job_completion\<close> raises that very exception and the trace is left
  as it was: no metrics are logged, no artifact is built or attached, the run is not
  finished. Moreover no call of \<^verbatim>\<open>log_job_completion\<close>, failing or not, creates a
  run.
\<close>

theorem completion_unresumable_fails_first:
  "(fault bk tr (Resume run_id) = Some e \<longrightarrow>
     log_job_completion self bk fs run_id log_file output_files metrics tr = (tr, Inl e)) \<and>
   run_configs (drop (length tr)
     (fst (log_job_completion self bk fs run_id log_file output_files metrics tr))) = []"
proof
  show "fault bk tr (Resume run_id) = Some e \<longrightarrow>
     log_job_completion self bk fs run_id log_file output_files metrics tr = (tr, Inl e)"
    by (simp add: log_job_completion_def wandb_resume_def seq_def sdk_def)
next
  obtain tr' r where o:
    "log_job_completion self bk fs run_id log_file output_files metrics tr = (tr', r)"
    by (cases "log_job_completion self bk fs run_id log_file output_files metrics tr") auto
  from completion_trace[OF o] o
  show "run_configs (drop (length tr)
     (fst (log_job_completion self bk fs run_id log_file output_files metrics tr))) = []"
    by auto
qed

theorem completion_unresumable_fails_first_witness:
  "fault backend_no_resume [] (Resume ''r9'') = Some UsageError \<and>
   log_job_completion self0 backend_no_resume fs0 ''r9'' (Some ''job.log'') (Some [''out.csv'']) None []
     = ([], Inl UsageError)"
  using completion_unresumable_fails_first
    [of backend_no_resume "[]" "''r9''" UsageError self0 fs0 "Some ''job.log''" "Some [''out.csv'']" None]
  by (simp add: backend_no_resume_def)

subsection \<open>The cluster key\<close>

text \<open>
  Claim C10. Every run \<^verbatim>\<open>init_run\<close> opens has the config key \<open>cluster\<close> set to
  \<open>chtc\<close>, whatever config the caller passed, and so has every run that
  \<^verbatim>\<open>log_job_submission\<close> creates, whatever the descriptor and the extra config hold.
\<close>

theorem init_run_cluster_is_chtc:
  "(init_run self bk project name config tags job_id tr = (tr', Inr run) \<longrightarrow>
      (\<exists>cfg. run_configs (drop (length tr) tr') = [cfg] \<and> map_of cfg ''cluster'' = Some (StrV ''chtc''))) \<and>
   (\<forall>cfg \<in> set (run_configs (drop (length tr)
        (fst (log_job_submission self bk fs project2 submit_file job_id2 config2 tr)))).
      map_of cfg ''cluster'' = Some (StrV ''chtc''))"
proof
  show "init_run self bk project name config tags job_id tr = (tr', Inr run) \<longrightarrow>
      (\<exists>cfg. run_configs (drop (length tr) tr') = [cfg] \<and> map_of cfg ''cluster'' = Some (StrV ''chtc''))"
    by (auto simp: init_run_def wandb_init_def seq_def sdk_def run_config_def Let_def split: option.splits)
next
  obtain t r where o: "log_job_submission self bk fs project2 submit_file job_id2 config2 tr = (t, r)"
    by (cases "log_job_submission self bk fs project2 submit_file job_id2 config2 tr") auto
  obtain sc where sc: "parse_submit_file fs submit_file = Inr sc"
    by (cases "read_submit_file fs submit_file") (auto simp: parse_submit_file_def)
  from submission_trace[OF o sc refl refl refl refl refl] o
  show "\<forall>cfg \<in> set (run_configs (drop (length tr)
        (fst (log_job_submission self bk fs project2 submit_file job_id2 config2 tr)))).
      map_of cfg ''cluster'' = Some (StrV ''chtc'')"
    by (auto simp: run_config_def Let_def)
qed

theorem init_run_cluster_is_chtc_witness:
  "init_run self0 backend_ok ''proj'' None (Some [(''cluster'', StrV ''mine'')]) None None []
     = ([Init ''proj'' None [(''cluster'', StrV ''chtc'')] [''chtc''] None], Inr ''run1'') \<and>
   run_configs (fst (log_job_submission self0 backend_ok fs0 ''proj'' ''submit.txt'' ''7.0''
       (Some [(''cluster'', StrV ''mine'')]) []))
     = [[(''executable'', StrV ''/bin/run.sh''), (''request_cpus'', StrV ''4''),
         (''universe'', StrV ''vanilla''), (''cluster'', StrV ''chtc''),
         (''htcondor_job_id'', StrV ''7.0'')]] \<and>
   map_of [(''executable'', StrV ''/bin/run.sh''), (''request_cpus'', StrV ''4''),
         (''universe'', StrV ''vanilla''), (''cluster'', StrV ''chtc''),
         (''htcondor_job_id'', StrV ''7.0'')] ''cluster'' = Some (StrV ''chtc'' :: unit pyval)"
proof -
  have e1: "init_run self0 backend_ok ''proj'' None (Some [(''cluster'', StrV ''mine'')]) None None []
     = ([Init ''proj'' None [(''cluster'', StrV ''chtc'')] [''chtc''] None], Inr ''run1'')"
    by code_simp
  have e2: "run_configs (fst (log_job_submission self0 backend_ok fs0 ''proj'' ''submit.txt'' ''7.0''
       (Some [(''cluster'', StrV ''mine'')]) []))
     = [[(''executable'', StrV ''/bin/run.sh''), (''request_cpus'', StrV ''4''),
         (''universe'', StrV ''vanilla''), (''cluster'', StrV ''chtc''),
         (''htcondor_job_id'', StrV ''7.0'')]]"
    by code_simp
  from init_run_cluster_is_chtc[of self0 backend_ok "''proj''" None "Some [(''cluster'', StrV ''mine'')]" None None "[]"
      "[Init ''proj'' None [(''cluster'', StrV ''chtc'')] [''chtc''] None]" "''run1''"
      fs0 "''proj''" "''submit.txt''" "''7.0''" "Some [(''cluster'', StrV ''mine'')]"] e1 e2
  show ?thesis by simp
qed

subsection \<open>The display name\<close>

text \<open>
  Claim C4. An explicit name is given and no job id: line 56 evaluates to
  \<^verbatim>\<open>None\<close>, so the run is opened without the name the caller chose.
\<close>

theorem init_run_name_lost_without_job_id:
  "run_names (fst (init_run self0 backend_ok ''proj'' (Some ''my-run'') None None None [])) = [None]"
  by code_simp

subsection \<open>A missing submit descriptor\<close>

text \<open>
  Claim C3. The descriptor path names no file. Parsing tolerates that, the run is
  created, then \<^verbatim>\<open>artifact.add_file(submit_file)\<close>, which no existence test
  guards, raises: no run id is returned and the run is not finished.
\<close>

theorem submission_missing_descriptor_raises:
  "log_job_submission self0 backend_ok fs0 ''proj'' ''missing.sub'' ''123.0'' None []
    = ([Init ''proj'' (Some ''chtc-job-123.0'')
          [(''htcondor_job_id'', StrV ''123.0''), (''cluster'', StrV ''chtc'')] [''chtc''] None,
        NewArtifact ''submit-123.0'' ''submit_file''], Inl ValueError)"
  by code_simp

subsection \<open>Finishing the run\<close>

text \<open>
  Against claim C1 as stated: the run is resumed, logging the metrics raises, and
  the call ends with that exception without finishing the run.
\<close>

theorem completion_exception_skips_finish:
  "log_job_completion self0 backend_log_down fs0 ''run1'' None None (Some [(''loss'', IntV 1)]) []
     = ([Resume ''run1''], Inl CommError) \<and>
   finishes (fst (log_job_completion self0 backend_log_down fs0 ''run1'' None None (Some [(''loss'', IntV 1)]) [])) = []"
  by code_simp

text \<open>
  Claim C1, amended. A call of \<^verbatim>\<open>log_job_completion\<close> or of
  \<^verbatim>\<open>log_job_submission\<close> that returns normally has finished its run exactly once,
  as its last SDK call (for a submission, the run whose id it returns). A call that
  ends with an exception has not finished any run.
\<close>

theorem finish_iff_normal_return:
  "(log_job_completion self bk fs run_id log_file output_files metrics tr = (tr', r) \<longrightarrow>
      (case r of
         Inr u \<Rightarrow> finishes (drop (length tr) tr') = [run_id] \<and> last tr' = Finish run_id
       | Inl e \<Rightarrow> finishes (drop (length tr) tr') = [])) \<and>
   (log_job_submission self bk fs project submit_file job_id config tr = (tr2, r2) \<longrightarrow>
      (case r2 of
         Inr run \<Rightarrow> run = new_id bk tr \<and> finishes (drop (length tr) tr2) = [run] \<and> last tr2 = Finish run
       | Inl e \<Rightarrow> finishes (drop (length tr) tr2) = []))"
proof (intro conjI impI)
  assume o: "log_job_completion self bk fs run_id log_file output_files metrics tr = (tr', r)"
  from completion_trace[OF o] obtain evs where evs: "tr' = tr @ evs"
    "case r of Inr _ \<Rightarrow> finishes evs = [run_id] \<and> last evs = Finish run_id | Inl e \<Rightarrow> finishes evs = []"
    by blast
  show "case r of
         Inr u \<Rightarrow> finishes (drop (length tr) tr') = [run_id] \<and> last tr' = Finish run_id
       | Inl e \<Rightarrow> finishes (drop (length tr) tr') = []"
  proof (cases r)
    case (Inl e)
    with evs show ?thesis by simp
  next
    case (Inr u)
    with evs have "finishes evs = [run_id]" "last evs = Finish run_id" by simp_all
    moreover from this have "evs \<noteq> []" by auto
    ultimately show ?thesis using evs(1) Inr by simp
  qed
next
  assume o: "log_job_submission self bk fs project submit_file job_id config tr = (tr2, r2)"
  obtain sc where sc: "parse_submit_file fs submit_file = Inr sc"
    by (cases "read_submit_file fs submit_file") (auto simp: parse_submit_file_def)
  from submission_trace[OF o sc refl refl refl refl refl]
  show "case r2 of
         Inr run \<Rightarrow> run = new_id bk tr \<and> finishes (drop (length tr) tr2) = [run] \<and> last tr2 = Finish run
       | Inl e \<Rightarrow> finishes (drop (length tr) tr2) = []"
    by auto
qed

theorem finish_iff_normal_return_witness:
  "log_job_completion self0 backend_ok fs0 ''run1'' (Some ''job.log'') (Some [''out.csv'', ''gone.csv'']) None []
     = ([Resume ''run1'',
         Log ''run1'' [(''runtime_seconds'', IntV 3723), (''memory_mb'', IntV 2048), (''disk_kb'', IntV 512000)],
         NewArtifact ''logs-run1'' ''logs'', AddFile ''logs-run1'' ''job.log'',
         LogArtifact ''run1'' (Artifact ''logs-run1'' ''logs'' [''job.log'']),
         NewArtifact ''outputs-run1'' ''results'', AddFile ''outputs-run1'' ''out.csv'',
         LogArtifact ''run1'' (Artifact ''outputs-run1'' ''results'' [''out.csv'']),
         Finish ''run1''], Inr ()) \<and>
   log_job_submission self0 backend_ok fs0 ''proj'' ''submit.txt'' ''123.0'' None []
     = ([Init ''proj'' (Some ''chtc-job-123.0'')
          [(''executable'', StrV ''/bin/run.sh''), (''request_cpus'', StrV ''4''),
           (''universe'', StrV ''vanilla''), (''htcondor_job_id'', StrV ''123.0''),
           (''cluster'', StrV ''chtc'')] [''chtc''] None,
         NewArtifact ''submit-123.0'' ''submit_file'', AddFile ''submit-123.0'' ''submit.txt'',
         LogArtifact ''run1'' (Artifact ''submit-123.0'' ''submit_file'' [''submit.txt'']),
         Finish ''run1''], Inr ''run1'') \<and>
   finishes [Resume ''run1'',
         Log ''run1'' [(''runtime_seconds'', IntV 3723), (''memory_mb'', IntV 2048), (''disk_kb'', IntV 512000)],
         NewArtifact ''logs-run1'' ''logs'', AddFile ''logs-run1'' ''job.log'',
         LogArtifact ''run1'' (Artifact ''logs-run1'' ''logs'' [''job.log'']),
         NewArtifact ''outputs-run1'' ''results'', AddFile ''outputs-run1'' ''out.csv'',
         LogArtifact ''run1'' (Artifact ''outputs-run1'' ''results'' [''out.csv'']),
         Finish (''run1'') :: unit call] = [''run1'']"
proof -
  let ?t1 = "[Resume ''run1'',
         Log ''run1'' [(''runtime_seconds'', IntV 3723), (''memory_mb'', IntV 2048), (''disk_kb'', IntV 512000)],
         NewArtifact ''logs-run1'' ''logs'', AddFile ''logs-run1'' ''job.log'',
         LogArtifact ''run1'' (Artifact ''logs-run1'' ''logs'' [''job.log'']),
         NewArtifact ''outputs-run1'' ''results'', AddFile ''outputs-run1'' ''out.csv'',
         LogArtifact ''run1'' (Artifact ''outputs-run1'' ''results'' [''out.csv'']),
         Finish (''run1'') :: unit call]"
  let ?t2 = "[Init ''proj'' (Some ''chtc-job-123.0'')
          [(''executable'', StrV ''/bin/run.sh''), (''request_cpus'', StrV ''4''),
           (''universe'', StrV ''vanilla''), (''htcondor_job_id'', StrV ''123.0''),
           (''cluster'', StrV ''chtc'')] [''chtc''] None,
         NewArtifact ''submit-123.0'' ''submit_file'', AddFile ''submit-123.0'' ''submit.txt'',
         LogArtifact ''run1'' (Artifact ''submit-123.0'' ''submit_file'' [''submit.txt'']),
         Finish (''run1'') :: unit call]"
  have e1: "log_job_completion self0 backend_ok fs0 ''run1'' (Some ''job.log'') (Some [''out.csv'', ''gone.csv'']) None []
     = (?t1, Inr ())"
    by code_simp
  have e2: "log_job_submission self0 backend_ok fs0 ''proj'' ''submit.txt'' ''123.0'' None [] = (?t2, Inr ''run1'')"
    by code_simp
  from finish_iff_normal_return[of self0 backend_ok fs0 "''run1''" "Some ''job.log''" "Some [''out.csv'', ''gone.csv'']" None "[]"
        ?t1 "Inr ()" "''proj''" "''submit.txt''" "''123.0''" None ?t2 "Inr ''run1''"] e1 e2
  show ?thesis by simp
qed

subsection \<open>The results bundle\<close>

text \<open>
  Claim C9. When \<^verbatim>\<open>log_job_completion\<close> is given a non-empty list of output files
  and returns, it has attached a \<open>results\<close> artifact whose files are exactly the
  paths of the list that exist, in order. Paths that do not exist play no part in the
  attach step: it behaves on the list as on the list without them.
\<close>

theorem results_bundle_existing_only:
  "(log_job_completion self bk fs run_id log_file (Some output_files) metrics tr = (tr', Inr ()) \<and>
      output_files \<noteq> [] \<longrightarrow>
      LogArtifact run_id (Artifact (''outputs-'' @ run_id) ''results'' (filter (path_exists fs) output_files))
        \<in> set (drop (length tr) tr')) \<and>
   log_outputs bk fs run run_id output_files tr
     = log_outputs bk fs run run_id (filter (path_exists fs) output_files) tr"
proof (intro conjI impI)
  show "log_outputs bk fs run run_id output_files tr
     = log_outputs bk fs run run_id (filter (path_exists fs) output_files) tr"
    using add_existing_filter[of bk fs _ output_files] by (simp add: log_outputs_def)
next
  assume a: "log_job_completion self bk fs run_id log_file (Some output_files) metrics tr = (tr', Inr ()) \<and>
      output_files \<noteq> []"
  then have o: "log_job_completion self bk fs run_id log_file (Some output_files) metrics tr = (tr', Inr ())"
    and ne: "output_files \<noteq> []" by simp_all
  from completion_trace[OF o] ne
  show "LogArtifact run_id (Artifact (''outputs-'' @ run_id) ''results'' (filter (path_exists fs) output_files))
        \<in> set (drop (length tr) tr')"
    by auto
qed

theorem results_bundle_existing_only_witness:
  "log_job_completion self0 backend_ok fs0 ''run1'' None (Some [''gone.csv'', ''out.csv'', ''lost.txt'']) None []
     = ([Resume ''run1'', NewArtifact ''outputs-run1'' ''results'', AddFile ''outputs-run1'' ''out.csv'',
         LogArtifact ''run1'' (Artifact ''outputs-run1'' ''results'' [''out.csv'']),
         Finish ''run1''], Inr ()) \<and>
   filter (path_exists fs0) [''gone.csv'', ''out.csv'', ''lost.txt''] = [''out.csv''] \<and>
   LogArtifact ''run1'' (Artifact ''outputs-run1'' ''results'' [''out.csv''])
     \<in> set (drop 0 [Resume ''run1'', NewArtifact ''outputs-run1'' ''results'', AddFile ''outputs-run1'' ''out.csv'',
         LogArtifact ''run1'' (Artifact ''outputs-run1'' ''results'' [''out.csv'']),
         Finish (''run1'') :: unit call])"
proof -
  let ?t = "[Resume ''run1'', NewArtifact ''outputs-run1'' ''results'', AddFile ''outputs-run1'' ''out.csv'',
         LogArtifact ''run1'' (Artifact ''outputs-run1'' ''results'' [''out.csv'']),
         Finish (''run1'') :: unit call]"
  have e1: "log_job_completion self0 backend_ok fs0 ''run1'' None (Some [''gone.csv'', ''out.csv'', ''lost.txt'']) None []
     = (?t, Inr ())"
    by code_simp
  have e2: "filter (path_exists fs0) [''gone.csv'', ''out.csv'', ''lost.txt''] = [''out.csv'']"
    by code_simp
  from results_bundle_existing_only[of self0 backend_ok fs0 "''run1''" None "[''gone.csv'', ''out.csv'', ''lost.txt'']" None "[]" ?t] e1 e2
  show ?thesis by simp
qed

subsection \<open>The config of a submission\<close>

text \<open>
  Against claim C8 as stated: the job id is the empty string and the caller's
  config sets \<open>cluster\<close>. The config of the run holds no job id under any key, and
  the caller's value of \<open>cluster\<close> is replaced.
\<close>

theorem submission_empty_job_id_not_injected:
  "run_configs (fst (log_job_submission self0 backend_ok fs0 ''proj'' ''submit.txt'' ''''
       (Some [(''cluster'', StrV ''mine'')]) []))
     = [[(''executable'', StrV ''/bin/run.sh''), (''request_cpus'', StrV ''4''),
         (''universe'', StrV ''vanilla''), (''cluster'', StrV ''chtc'')]] \<and>
   map_of [(''executable'', StrV ''/bin/run.sh''), (''request_cpus'', StrV ''4''),
         (''universe'', StrV ''vanilla''), (''cluster'', StrV ''chtc'' :: unit pyval)]
       ''htcondor_job_id'' = None"
  by code_simp

text \<open>
  Claim C8, amended. A submission that returns has created one run, and its config
  is known key by key: \<open>cluster\<close> is \<open>chtc\<close>; \<open>htcondor_job_id\<close> is the job id
  when the job id is not empty; every other key, and \<open>htcondor_job_id\<close> when the
  job id is empty, has the value of the caller's config when that has the key, and
  otherwise the value of the extracted submit config.
\<close>

theorem submission_config_merge:
  assumes "log_job_submission self bk fs project submit_file job_id config tr = (tr', Inr run)"
    and "parse_submit_file fs submit_file = Inr submit_config"
    and "distinct (map fst (or_empty config))"
  shows "\<exists>cfg. run_configs (drop (length tr) tr') = [cfg] \<and>
     (\<forall>k. map_of cfg k =
        (if k = ''cluster'' then Some (StrV ''chtc'')
         else if k = ''htcondor_job_id'' \<and> job_id \<noteq> [] then Some (StrV job_id)
         else (case map_of (or_empty config) k of
                 Some v \<Rightarrow> Some v
               | None \<Rightarrow> map_option StrV (map_of submit_config k))))"
proof -
  let ?cfg = "run_config (Some (dict_merge (str_items submit_config) (or_empty config))) (Some job_id)"
  from submission_trace[OF assms(1,2) refl refl refl refl refl]
  have "run_configs (drop (length tr) tr') = [?cfg]" by auto
  moreover have "\<forall>k. map_of ?cfg k =
        (if k = ''cluster'' then Some (StrV ''chtc'')
         else if k = ''htcondor_job_id'' \<and> job_id \<noteq> [] then Some (StrV job_id)
         else (case map_of (or_empty config) k of
                 Some v \<Rightarrow> Some v
               | None \<Rightarrow> map_option StrV (map_of submit_config k)))"
    using assms(3)
    by (auto simp: run_config_def Let_def map_of_dict_merge map_of_str_items split: option.splits)
  ultimately show ?thesis by blast
qed

theorem submission_config_merge_witness:
  "log_job_submission self0 backend_ok fs0 ''proj'' ''submit.txt'' ''123.0''
      (Some [(''universe'', StrV ''docker''), (''lr'', IntV 3)]) []
     = ([Init ''proj'' (Some ''chtc-job-123.0'')
          [(''executable'', StrV ''/bin/run.sh''), (''request_cpus'', StrV ''4''),
           (''universe'', StrV ''docker''), (''lr'', IntV 3), (''htcondor_job_id'', StrV ''123.0''),
           (''cluster'', StrV ''chtc'')] [''chtc''] None,
         NewArtifact ''submit-123.0'' ''submit_file'', AddFile ''submit-123.0'' ''submit.txt'',
         LogArtifact ''run1'' (Artifact ''submit-123.0'' ''submit_file'' [''submit.txt'']),
         Finish ''run1''], Inr ''run1'') \<and>
   parse_submit_file fs0 ''submit.txt''
     = Inr [(''executable'', ''/bin/run.sh''), (''request_cpus'', ''4''), (''universe'', ''vanilla'')] \<and>
   distinct (map fst (or_empty (Some [(''universe'', StrV ''docker''), (''lr'', IntV 3 :: unit pyval)]))) \<and>
   (\<exists>cfg. run_configs (drop (length ([] :: unit call list))
            (fst (log_job_submission self0 backend_ok fs0 ''proj'' ''submit.txt'' ''123.0''
               (Some [(''universe'', StrV ''docker''), (''lr'', IntV 3)]) []))) = [cfg] \<and>
      map_of cfg ''cluster'' = Some (StrV ''chtc'') \<and>
      map_of cfg ''htcondor_job_id'' = Some (StrV ''123.0'') \<and>
      map_of cfg ''universe'' = Some (StrV ''docker'') \<and>
      map_of cfg ''request_cpus'' = Some (StrV ''4'') \<and>
      map_of cfg ''scheduler_job_id'' = None)"
proof -
  let ?t = "[Init ''proj'' (Some ''chtc-job-123.0'')
          [(''executable'', StrV ''/bin/run.sh''), (''request_cpus'', StrV ''4''),
           (''universe'', StrV ''docker''), (''lr'', IntV 3), (''htcondor_job_id'', StrV ''123.0''),
           (''cluster'', StrV ''chtc'')] [''chtc''] None,
         NewArtifact ''submit-123.0'' ''submit_file'', AddFile ''submit-123.0'' ''submit.txt'',
         LogArtifact ''run1'' (Artifact ''submit-123.0'' ''submit_file'' [''submit.txt'']),
         Finish (''run1'') :: unit call]"
  have e1: "log_job_submission self0 backend_ok fs0 ''proj'' ''submit.txt'' ''123.0''
      (Some [(''universe'', StrV ''docker''), (''lr'', IntV 3)]) [] = (?t, Inr ''run1'')"
    by code_simp
  have e2: "parse_submit_file fs0 ''submit.txt''
     = Inr [(''executable'', ''/bin/run.sh''), (''request_cpus'', ''4''), (''universe'', ''vanilla'')]"
    by code_simp
  have e3: "distinct (map fst (or_empty (Some [(''universe'', StrV ''docker''), (''lr'', IntV 3 :: unit pyval)])))"
    by simp
  from submission_config_merge[OF e1 e2 e3] obtain cfg where
    c: "run_configs (drop (length ([] :: unit call list)) ?t) = [cfg]" and
    k: "\<And>k. map_of cfg k =
        (if k = ''cluster'' then Some (StrV ''chtc'')
         else if k = ''htcondor_job_id'' \<and> ''123.0'' \<noteq> [] then Some (StrV ''123.0'')
         else (case map_of (or_empty (Some [(''universe'', StrV ''docker''), (''lr'', IntV 3)])) k of
                 Some v \<Rightarrow> Some v
               | None \<Rightarrow> map_option StrV (map_of [(''executable'', ''/bin/run.sh''),
                           (''request_cpus'', ''4''), (''universe'', ''vanilla'')] k)))"
    by auto
  have v: "map_of cfg ''cluster'' = Some (StrV ''chtc'')"
    "map_of cfg ''htcondor_job_id'' = Some (StrV ''123.0'')"
    "map_of cfg ''universe'' = Some (StrV ''docker'')"
    "map_of cfg ''request_cpus'' = Some (StrV ''4'')"
    "map_of cfg ''scheduler_job_id'' = None"
    by (simp_all add: k)
  from c e1 have c': "run_configs (drop (length ([] :: unit call list))
            (fst (log_job_submission self0 backend_ok fs0 ''proj'' ''submit.txt'' ''123.0''
               (Some [(''universe'', StrV ''docker''), (''lr'', IntV 3)]) []))) = [cfg]"
    by simp
  have ex: "\<exists>cfg. run_configs (drop (length ([] :: unit call list))
            (fst (log_job_submission self0 backend_ok fs0 ''proj'' ''submit.txt'' ''123.0''
               (Some [(''universe'', StrV ''docker''), (''lr'', IntV 3)]) []))) = [cfg] \<and>
      map_of cfg ''cluster'' = Some (StrV ''chtc'') \<and>
      map_of cfg ''htcondor_job_id'' = Some (StrV ''123.0'') \<and>
      map_of cfg ''universe'' = Some (StrV ''docker'') \<and>
      map_of cfg ''request_cpus'' = Some (StrV ''4'') \<and>
      map_of cfg ''scheduler_job_id'' = None"
    by (rule exI[of _ cfg]) (intro conjI c' v)
  show ?thesis by (intro conjI) (rule e1, rule e2, rule e3, rule ex)
qed

subsection \<open>Trimming and lower-casing\<close>

lemma is_space_code:
  "is_space c \<longleftrightarrow> (of_char c :: nat) \<in> {9, 10, 11, 12, 13, 28, 29, 30, 31, 32}"
proof -
  have eq: "\<And>d. (c = d) = ((of_char c :: nat) = of_char d)" by simp
  show ?thesis unfolding is_space_def by (simp del: of_char_eq_iff add: eq)
qed

lemma is_space_to_lower [simp]: "is_space (to_lower c) = is_space c"
  by (auto simp: is_space_code to_lower_def)

lemma not_space_eq [simp]: "\<not> is_space (CHR ''='')" "\<not> is_space (CHR ''#'')"
  by (simp_all add: is_space_def)

lemma to_lower_hash [simp]: "to_lower (CHR ''#'') = CHR ''#''"
  by (simp add: to_lower_def)


lemma rstrip_spaces_right:
  "\<forall>c\<in>set b. is_space c \<Longrightarrow> rstrip (x @ b) = rstrip x"
  using dropWhile_append2[of "rev b" is_space "rev x"] by (simp add: rstrip_def)

lemma strip_spaces_right:
  "\<forall>c\<in>set b. is_space c \<Longrightarrow> strip (x @ b) = strip x"
  by (simp add: strip_def rstrip_spaces_right)

lemma strip_spaces_left:
  assumes "\<forall>c\<in>set a. is_space c"
  shows "strip (a @ x) = strip x"
proof (cases "\<forall>c\<in>set x. is_space c")
  case True
  with assms have h: "dropWhile is_space (rev x @ rev a) = []" "dropWhile is_space (rev x) = []"
    by auto
  show ?thesis unfolding strip_def rstrip_def lstrip_def rev_append h by (rule refl)
next
  case False
  then obtain c where "c \<in> set (rev x)" "\<not> is_space c" by auto
  then have "dropWhile is_space (rev x @ rev a) = dropWhile is_space (rev x) @ rev a"
    by (rule dropWhile_append1)
  with assms show ?thesis by (simp add: strip_def rstrip_def lstrip_def)
qed

lemma strip_decomp:
  "\<exists>a b. s = a @ strip s @ b \<and> (\<forall>c\<in>set a. is_space c) \<and> (\<forall>c\<in>set b. is_space c)"
proof -
  have 1: "s = rstrip s @ rev (takeWhile is_space (rev s))"
  proof -
    have "rev (takeWhile is_space (rev s) @ dropWhile is_space (rev s)) = s"
      by (simp only: takeWhile_dropWhile_id rev_rev_ident)
    then have "rev (dropWhile is_space (rev s)) @ rev (takeWhile is_space (rev s)) = s"
      by (simp only: rev_append)
    then show ?thesis by (simp only: rstrip_def)
  qed
  have 2: "rstrip s = takeWhile is_space (rstrip s) @ strip s"
    by (simp add: strip_def lstrip_def)
  have "s = takeWhile is_space (rstrip s) @ strip s @ rev (takeWhile is_space (rev s))"
    using 1 2 by (metis append.assoc)
  moreover have "\<forall>c\<in>set (takeWhile is_space (rstrip s)). is_space c"
    by (auto dest: set_takeWhileD)
  moreover have "\<forall>c\<in>set (rev (takeWhile is_space (rev s))). is_space c"
    by (auto dest: set_takeWhileD)
  ultimately show ?thesis by blast
qed

lemma strip_lower: "strip (lower s) = lower (strip s)"
proof -
  have c: "is_space \<circ> to_lower = is_space" by (simp add: fun_eq_iff)
  show ?thesis
    by (simp add: strip_def lstrip_def rstrip_def lower_def dropWhile_map rev_map c)
qed

lemma strip_hash: "strip (CHR ''#'' # xs) \<noteq> [] \<and> hd (strip (CHR ''#'' # xs)) = CHR ''#''"
proof -
  have "rstrip (CHR ''#'' # xs) = CHR ''#'' # rstrip xs"
    by (simp add: rstrip_def dropWhile_append)
  then show ?thesis by (simp add: strip_def lstrip_def)
qed


lemma spaces_no_eq: "\<forall>c\<in>set a. is_space c \<Longrightarrow> \<forall>c\<in>set a. c \<noteq> CHR ''=''"
  by auto

lemma lower_spaces: "\<forall>c\<in>set a. is_space c \<Longrightarrow> \<forall>c\<in>set (lower a). is_space c"
  by (auto simp: lower_def)

lemma key_of_padded:
  assumes a: "\<forall>c\<in>set a. is_space c" and e: "CHR ''='' \<in> set s"
  shows "strip (lower (takeWhile (\<lambda>c. c \<noteq> CHR ''='') (a @ s @ b)))
           = lower (strip (takeWhile (\<lambda>c. c \<noteq> CHR ''='') s))"
proof -
  let ?ne = "\<lambda>c. c \<noteq> CHR ''=''"
  from a have "takeWhile ?ne (a @ s @ b) = a @ takeWhile ?ne (s @ b)"
    by (intro takeWhile_append2) auto
  moreover from e have "takeWhile ?ne (s @ b) = takeWhile ?ne s"
    by (intro takeWhile_append1[of "CHR ''=''"]) auto
  ultimately have "lower (takeWhile ?ne (a @ s @ b)) = lower a @ lower (takeWhile ?ne s)"
    by (simp add: lower_def)
  with strip_spaces_left[OF lower_spaces[OF a]] show ?thesis
    by (simp add: strip_lower)
qed

lemma val_of_padded:
  assumes a: "\<forall>c\<in>set a. is_space c" and b: "\<forall>c\<in>set b. is_space c" and e: "CHR ''='' \<in> set s"
  shows "strip (tl (dropWhile (\<lambda>c. c \<noteq> CHR ''='') (a @ s @ b)))
           = strip (tl (dropWhile (\<lambda>c. c \<noteq> CHR ''='') s))"
proof -
  let ?ne = "\<lambda>c. c \<noteq> CHR ''=''"
  from a have "dropWhile ?ne (a @ s @ b) = dropWhile ?ne (s @ b)"
    by (intro dropWhile_append2) auto
  moreover from e have "dropWhile ?ne (s @ b) = dropWhile ?ne s @ b"
    by (intro dropWhile_append1[of "CHR ''=''"]) auto
  moreover from e have "dropWhile ?ne s \<noteq> []" by auto
  ultimately have "tl (dropWhile ?ne (a @ s @ b)) = tl (dropWhile ?ne s) @ b"
    by simp
  with strip_spaces_right[OF b] show ?thesis by simp
qed

lemma hash_key_not_allowed:
  assumes a: "\<forall>c\<in>set a. is_space c"
  shows "strip (lower (takeWhile (\<lambda>c. c \<noteq> CHR ''='') (a @ (CHR ''#'' # r) @ b))) \<notin> set allow_list"
proof -
  let ?ne = "\<lambda>c. c \<noteq> CHR ''=''"
  from a have "takeWhile ?ne (a @ (CHR ''#'' # r) @ b) = a @ takeWhile ?ne ((CHR ''#'' # r) @ b)"
    by (intro takeWhile_append2) auto
  then have "lower (takeWhile ?ne (a @ (CHR ''#'' # r) @ b))
      = lower a @ (CHR ''#'' # lower (takeWhile ?ne (r @ b)))"
    by (simp add: lower_def)
  with strip_spaces_left[OF lower_spaces[OF a]]
  have "strip (lower (takeWhile ?ne (a @ (CHR ''#'' # r) @ b)))
      = strip (CHR ''#'' # lower (takeWhile ?ne (r @ b)))" by simp
  with strip_hash[of "lower (takeWhile ?ne (r @ b))"] show ?thesis
    by (auto simp: allow_list_def)
qed

lemma submit_line_spec:
  "submit_line raw config =
     (case spec_line_pair raw of None \<Rightarrow> config | Some (k, v) \<Rightarrow> dict_set config k v)"
proof -
  let ?ne = "\<lambda>c. c \<noteq> CHR ''=''"
  obtain a b where raw: "raw = a @ strip raw @ b"
    and a: "\<forall>c\<in>set a. is_space c" and b: "\<forall>c\<in>set b. is_space c"
    using strip_decomp[of raw] by blast
  show ?thesis
  proof (cases "strip raw")
    case Nil
    then show ?thesis by (simp add: submit_line_def spec_line_pair_def)
  next
    case (Cons x r)
    show ?thesis
    proof (cases "x = CHR ''#''")
      case True
      with Cons have src: "submit_line raw config = config"
        by (simp add: submit_line_def startswith_def)
      from raw Cons True have r2: "raw = a @ (CHR ''#'' # r) @ b" by simp
      have "strip (lower (takeWhile ?ne raw)) \<notin> set allow_list"
        using hash_key_not_allowed[OF a, of r b] r2 by simp
      then have "spec_line_pair raw = None"
        by (simp add: spec_line_pair_def Let_def)
      with src show ?thesis by simp
    next
      case False
      with Cons have ns: "\<not> startswith (strip raw) ''#''" by (simp add: startswith_def)
      have nr: "\<not> startswith raw ''#''"
      proof
        assume "startswith raw ''#''"
        then obtain t where "raw = CHR ''#'' # t" by (cases raw) (auto simp: startswith_def)
        with strip_hash[of t] Cons False show False by auto
      qed
      have mem: "CHR ''='' \<in> set raw \<longleftrightarrow> CHR ''='' \<in> set (strip raw)"
      proof -
        have "set raw = set a \<union> set (strip raw) \<union> set b" by (subst raw) auto
        with a b show ?thesis by auto
      qed
      show ?thesis
      proof (cases "CHR ''='' \<in> set (strip raw)")
        case f: False
        with Cons ns nr mem show ?thesis by (simp add: submit_line_def spec_line_pair_def)
      next
        case t: True
        have k: "strip (lower (takeWhile ?ne raw)) = lower (strip (takeWhile ?ne (strip raw)))"
          using key_of_padded[OF a t, of b] raw by simp
        have v: "strip (tl (dropWhile ?ne raw)) = strip (tl (dropWhile ?ne (strip raw)))"
          using val_of_padded[OF a b t] raw by simp
        from Cons ns nr mem t show ?thesis
          by (simp add: submit_line_def spec_line_pair_def Let_def split_first_def k v allow_list_def)
      qed
    qed
  qed
qed

lemma keys_dict_set: "fst ` set (dict_set d k v) = insert k (fst ` set d)"
  by (induction d) force+

lemma distinct_dict_set: "distinct (map fst d) \<Longrightarrow> distinct (map fst (dict_set d k v))"
proof (induction d)
  case Nil
  then show ?case by simp
next
  case (Cons x d)
  obtain k' v' where x: "x = (k', v')" by (cases x)
  from Cons.prems x have d: "distinct (map fst d)" and n: "k' \<notin> fst ` set d" by auto
  show ?case
  proof (cases "k' = k")
    case True
    with x d n show ?thesis by simp
  next
    case False
    with n have "k' \<notin> fst ` set (dict_set d k v)" by (simp add: keys_dict_set)
    with False x Cons.IH[OF d] show ?thesis by simp
  qed
qed

lemma distinct_submit_line:
  "distinct (map fst config) \<Longrightarrow> distinct (map fst (submit_line raw config))"
  by (simp add: submit_line_spec distinct_dict_set split: option.splits prod.splits)

lemma distinct_fold_submit_line:
  "distinct (map fst config) \<Longrightarrow> distinct (map fst (fold submit_line ls config))"
  by (induction ls arbitrary: config) (simp_all add: distinct_submit_line)

lemma map_of_fold_submit_line:
  "map_of (fold submit_line ls config) k =
     (case map_of (rev (List.map_filter spec_line_pair ls)) k of
        Some v \<Rightarrow> Some v
      | None \<Rightarrow> map_of config k)"
proof (induction ls arbitrary: config)
  case Nil
  then show ?case by simp
next
  case (Cons l ls)
  show ?case
  proof (cases "spec_line_pair l")
    case None
    with Cons[of config] show ?thesis
      by (simp add: submit_line_spec)
  next
    case (Some p)
    obtain k' v' where p: "p = (k', v')" by (cases p)
    with Some Cons[of "dict_set config k' v'"] show ?thesis
      by (auto simp: submit_line_spec map_add_def split: option.splits)
  qed
qed

subsection \<open>The submit descriptor\<close>

text \<open>
  Claim C5. For a submit descriptor that can be opened, \<^verbatim>\<open>_parse_submit_file\<close>
  returns a dict that holds exactly the pairs the specification's algorithm keeps:
  for each line that is not blank, not a comment and holds a \<open>=\<close>, the lower-cased,
  trimmed text before the first \<open>=\<close> when it is in the allow-list, with the trimmed
  text after it. A key given on several lines keeps the value of its last line.
  Every other line contributes nothing.
\<close>

theorem parse_submit_file_allow_listed_pairs:
  "fs submit_file = File text bad \<Longrightarrow>
     \<exists>config. parse_submit_file fs submit_file = Inr config \<and>
       distinct (map fst config) \<and>
       (\<forall>k v. (k, v) \<in> set config \<longleftrightarrow> map_of (rev (spec_submit_pairs text)) k = Some v)"
proof -
  assume f: "fs submit_file = File text bad"
  let ?c = "fold submit_line (file_lines text) []"
  from f have 1: "parse_submit_file fs submit_file = Inr ?c"
    by (simp add: parse_submit_file_def read_submit_file_def)
  have 2: "distinct (map fst ?c)" by (rule distinct_fold_submit_line) simp
  have 3: "map_of ?c k = map_of (rev (spec_submit_pairs text)) k" for k
    by (simp add: map_of_fold_submit_line spec_submit_pairs_def split: option.splits)
  have 4: "\<forall>k v. (k, v) \<in> set ?c \<longleftrightarrow> map_of (rev (spec_submit_pairs text)) k = Some v"
  proof (intro allI)
    fix k v
    have "(k, v) \<in> set ?c \<longleftrightarrow> map_of ?c k = Some v"
      by (rule map_of_eq_Some_iff[OF 2, symmetric])
    then show "(k, v) \<in> set ?c \<longleftrightarrow> map_of (rev (spec_submit_pairs text)) k = Some v"
      by (simp only: 3)
  qed
  show ?thesis
    by (rule exI[of _ ?c]) (intro conjI 1 2 4)
qed

theorem parse_submit_file_allow_listed_pairs_witness:
  "fs0 ''submit.txt'' = File submit_text False \<and>
   spec_submit_pairs submit_text
     = [(''executable'', ''/bin/run.sh''), (''request_cpus'', ''4''), (''universe'', ''vanilla'')] \<and>
   (\<exists>config. parse_submit_file fs0 ''submit.txt'' = Inr config \<and> distinct (map fst config) \<and>
      (''executable'', ''/bin/run.sh'') \<in> set config \<and> (''request_cpus'', ''4'') \<in> set config \<and>
      (''universe'', ''vanilla'') \<in> set config)"
proof -
  have f: "fs0 ''submit.txt'' = File submit_text False" by (simp add: fs0_def)
  have p: "spec_submit_pairs submit_text
     = [(''executable'', ''/bin/run.sh''), (''request_cpus'', ''4''), (''universe'', ''vanilla'')]"
    by code_simp
  from parse_submit_file_allow_listed_pairs[of fs0 "''submit.txt''" submit_text False, OF f] obtain config where c: "parse_submit_file fs0 ''submit.txt'' = Inr config"
    "distinct (map fst config)"
    "\<forall>k v. (k, v) \<in> set config \<longleftrightarrow> map_of (rev (spec_submit_pairs submit_text)) k = Some v"
    by blast
  from c(3) p have m: "(''executable'', ''/bin/run.sh'') \<in> set config"
      "(''request_cpus'', ''4'') \<in> set config" "(''universe'', ''vanilla'') \<in> set config"
    by simp_all
  have "\<exists>config. parse_submit_file fs0 ''submit.txt'' = Inr config \<and> distinct (map fst config) \<and>
      (''executable'', ''/bin/run.sh'') \<in> set config \<and> (''request_cpus'', ''4'') \<in> set config \<and>
      (''universe'', ''vanilla'') \<in> set config"
    by (rule exI[of _ config]) (simp only: c(1,2) m simp_thms)
  with f p show ?thesis by (simp only: simp_thms)
qed

subsection \<open>What the patterns capture\<close>

lemma rmatch_lits:
  "rmatch (lits w @ r) start cap s = Some g \<Longrightarrow> \<exists>xs. s = w @ xs \<and> rmatch r start cap xs = Some g"
proof (induction w arbitrary: s)
  case Nil
  then show ?case by (simp add: lits_def)
next
  case (Cons c w)
  then show ?case by (cases s) (auto simp: lits_def split: if_splits)
qed

lemma rmatch_Lit:
  "rmatch (Lit c # r) start cap s = Some g \<Longrightarrow> \<exists>xs. s = c # xs \<and> rmatch r start cap xs = Some g"
  by (cases s) (auto split: if_splits)

lemma rmatch_Greedy:
  "rmatch (Greedy k n # r) start cap s = Some g \<Longrightarrow>
     \<exists>j. n \<le> j \<and> j \<le> length s \<and> (\<forall>c\<in>set (take j s). in_cls k c) \<and>
         rmatch r start cap (drop j s) = Some g"
proof (induction s arbitrary: n)
  case Nil
  then show ?case by (auto split: if_splits)
next
  case (Cons x xs)
  show ?case
  proof (cases "in_cls k x \<and> rmatch (Greedy k (n - 1) # r) start cap xs = Some g")
    case True
    with Cons.IH[of "n - 1"] obtain j where j: "n - 1 \<le> j" "j \<le> length xs"
      "\<forall>c\<in>set (take j xs). in_cls k c" "rmatch r start cap (drop j xs) = Some g" by blast
    with True show ?thesis by (intro exI[of _ "Suc j"]) auto
  next
    case False
    with Cons.prems have "n = 0" "rmatch r start cap (x # xs) = Some g"
      by (auto split: if_splits option.splits)
    then show ?thesis by (intro exI[of _ 0]) auto
  qed
qed

lemma rmatch_Lazy:
  "rmatch (Lazy k # r) start cap s = Some g \<Longrightarrow>
     \<exists>j. j \<le> length s \<and> rmatch r start cap (drop j s) = Some g"
proof (induction s)
  case Nil
  then show ?case by auto
next
  case (Cons x xs)
  show ?case
  proof (cases "rmatch r start cap (x # xs)")
    case (Some g')
    with Cons.prems show ?thesis by (intro exI[of _ 0]) auto
  next
    case None
    with Cons.prems have "rmatch (Lazy k # r) start cap xs = Some g" by (auto split: if_splits)
    with Cons.IH obtain j where "j \<le> length xs" "rmatch r start cap (drop j xs) = Some g" by blast
    then show ?thesis by (intro exI[of _ "Suc j"]) auto
  qed
qed

lemma re_search_rmatch:
  "re_search items s = Some g \<Longrightarrow> \<exists>t. rmatch items t [] t = Some g"
proof (induction s)
  case Nil
  then show ?case by auto
next
  case (Cons x xs)
  then show ?case by (cases "rmatch items (x # xs) [] (x # xs)") auto
qed

lemma group_digits:
  assumes "rmatch [Open, Greedy Digit 1, Close] start cap s = Some g"
  shows "digits g"
proof -
  from assms have "rmatch (Greedy Digit 1 # [Close]) s cap s = Some g" by simp
  from rmatch_Greedy[OF this] obtain j where j: "1 \<le> j" "j \<le> length s"
    "\<forall>c\<in>set (take j s). in_cls Digit c" "rmatch [Close] s cap (drop j s) = Some g" by blast
  from j(2,4) have "g = take j s" by simp
  with j show ?thesis by (auto simp: digits_def list_all_iff)
qed

lemma group_hms:
  assumes "rmatch [Open, Greedy Digit 1, Lit (CHR '':''), Greedy Digit 1, Lit (CHR '':''),
      Greedy Digit 1, Close] start cap s = Some g"
  shows "\<exists>h m sec. g = h @ CHR '':'' # m @ CHR '':'' # sec \<and> digits h \<and> digits m \<and> digits sec"
proof -
  from assms have "rmatch (Greedy Digit 1 # [Lit (CHR '':''), Greedy Digit 1, Lit (CHR '':''),
      Greedy Digit 1, Close]) s cap s = Some g" by simp
  from rmatch_Greedy[OF this] obtain j1 where j1: "1 \<le> j1" "j1 \<le> length s"
    "\<forall>c\<in>set (take j1 s). in_cls Digit c"
    "rmatch (Lit (CHR '':'') # [Greedy Digit 1, Lit (CHR '':''), Greedy Digit 1, Close]) s cap (drop j1 s) = Some g"
    by blast
  from rmatch_Lit[OF j1(4)] obtain s1 where s1: "drop j1 s = CHR '':'' # s1"
    "rmatch (Greedy Digit 1 # [Lit (CHR '':''), Greedy Digit 1, Close]) s cap s1 = Some g" by blast
  from rmatch_Greedy[OF s1(2)] obtain j2 where j2: "1 \<le> j2" "j2 \<le> length s1"
    "\<forall>c\<in>set (take j2 s1). in_cls Digit c"
    "rmatch (Lit (CHR '':'') # [Greedy Digit 1, Close]) s cap (drop j2 s1) = Some g" by blast
  from rmatch_Lit[OF j2(4)] obtain s2 where s2: "drop j2 s1 = CHR '':'' # s2"
    "rmatch (Greedy Digit 1 # [Close]) s cap s2 = Some g" by blast
  from rmatch_Greedy[OF s2(2)] obtain j3 where j3: "1 \<le> j3" "j3 \<le> length s2"
    "\<forall>c\<in>set (take j3 s2). in_cls Digit c"
    "rmatch [Close] s cap (drop j3 s2) = Some g" by blast
  have d1: "s = take j1 s @ CHR '':'' # s1" using s1(1) by (metis append_take_drop_id)
  have d2: "s1 = take j2 s1 @ CHR '':'' # s2" using s2(1) by (metis append_take_drop_id)
  have d3: "s2 = take j3 s2 @ drop j3 s2" by simp
  let ?h = "take j1 s" and ?m = "take j2 s1" and ?sec = "take j3 s2"
  define p where "p = ?h @ CHR '':'' # ?m @ CHR '':'' # ?sec"
  define q where "q = drop j3 s2"
  have s: "s = p @ q"
    unfolding p_def q_def using d1 d2 d3 by (metis append.assoc append_Cons)
  from j3(4) have "g = take (length s - length q) s" by (simp add: q_def)
  also have "\<dots> = p" by (simp add: s)
  finally have g: "g = ?h @ CHR '':'' # ?m @ CHR '':'' # ?sec" by (simp add: p_def)
  from j1 j2 j3 have "digits ?h" "digits ?m" "digits ?sec"
    by (auto simp: digits_def list_all_iff)
  with g show ?thesis by blast
qed


lemma runtime_re_shape:
  assumes "re_search runtime_re text = Some g"
  shows "\<exists>h m sec. g = h @ CHR '':'' # m @ CHR '':'' # sec \<and> digits h \<and> digits m \<and> digits sec"
proof -
  let ?tail = "[Open, Greedy Digit 1, Lit (CHR '':''), Greedy Digit 1, Lit (CHR '':''),
      Greedy Digit 1, Close]"
  from re_search_rmatch[OF assms] obtain t where
    "rmatch (lits ''Job terminated'' @ (Lazy AnyChar # (lits ''run time'' @ (Lazy AnyChar # ?tail)))) t [] t = Some g"
    by (auto simp: runtime_re_def)
  from rmatch_lits[OF this] obtain t1 where
    "rmatch (Lazy AnyChar # (lits ''run time'' @ (Lazy AnyChar # ?tail))) t [] t1 = Some g" by blast
  from rmatch_Lazy[OF this] obtain j1 where
    "rmatch (lits ''run time'' @ (Lazy AnyChar # ?tail)) t [] (drop j1 t1) = Some g" by blast
  from rmatch_lits[OF this] obtain t2 where
    "rmatch (Lazy AnyChar # ?tail) t [] t2 = Some g" by blast
  from rmatch_Lazy[OF this] obtain j2 where
    "rmatch ?tail t [] (drop j2 t2) = Some g" by blast
  from group_hms[OF this] show ?thesis .
qed

lemma number_re_shape:
  assumes "re_search (lits w @ [Greedy Space 0, Lit (CHR '':''), Greedy Space 0, Open, Greedy Digit 1, Close]) text
             = Some g"
  shows "digits g"
proof -
  from re_search_rmatch[OF assms] obtain t where
    "rmatch (lits w @ (Greedy Space 0 # [Lit (CHR '':''), Greedy Space 0, Open, Greedy Digit 1, Close])) t [] t = Some g"
    by auto
  from rmatch_lits[OF this] obtain t1 where
    "rmatch (Greedy Space 0 # [Lit (CHR '':''), Greedy Space 0, Open, Greedy Digit 1, Close]) t [] t1 = Some g"
    by blast
  from rmatch_Greedy[OF this] obtain j1 where
    "rmatch (Lit (CHR '':'') # [Greedy Space 0, Open, Greedy Digit 1, Close]) t [] (drop j1 t1) = Some g"
    by blast
  from rmatch_Lit[OF this] obtain t2 where
    "rmatch (Greedy Space 0 # [Open, Greedy Digit 1, Close]) t [] t2 = Some g" by blast
  from rmatch_Greedy[OF this] obtain j2 where
    "rmatch [Open, Greedy Digit 1, Close] t [] (drop j2 t2) = Some g" by blast
  from group_digits[OF this] show ?thesis .
qed

lemma split_on_not_Nil [simp]: "split_on c s \<noteq> []"
  by (induction s) (auto split: list.splits)

lemma split_on_no_sep: "c \<notin> set d \<Longrightarrow> split_on c d = [d]"
  by (induction d) auto

lemma split_on_sep: "c \<notin> set d \<Longrightarrow> split_on c (d @ c # rest) = d # split_on c rest"
  by (induction d) (auto split: list.splits)

lemma colon_not_digit: "\<not> is_digit (CHR '':'')"
  by (simp add: is_digit_def)

lemma digits_no_colon: "digits d \<Longrightarrow> CHR '':'' \<notin> set d"
  using colon_not_digit by (auto simp: digits_def list_all_iff)

lemma py_int_digits:
  "digits d \<Longrightarrow> py_int d = (if length d \<le> int_max_str_digits then Some (decimal d) else None)"
  by (simp add: digits_def py_int_def)

lemma split_on_hms:
  assumes "digits h" "digits m" "digits sec"
  shows "split_on (CHR '':'') (h @ CHR '':'' # m @ CHR '':'' # sec) = [h, m, sec]"
  using assms by (simp add: split_on_sep split_on_no_sep digits_no_colon)

lemma runtime_seconds_hms:
  assumes "digits h" "digits m" "digits sec"
  shows "runtime_seconds (h @ CHR '':'' # m @ CHR '':'' # sec)
           = (if length h \<le> int_max_str_digits \<and> length m \<le> int_max_str_digits \<and>
                 length sec \<le> int_max_str_digits
              then Inr (decimal h * 3600 + decimal m * 60 + decimal sec)
              else Inl ValueError)"
  using assms by (simp add: runtime_seconds_def split_on_hms py_int_digits)

lemma int_group_digits:
  "digits g \<Longrightarrow>
     int_group g = (if length g \<le> int_max_str_digits then Inr (decimal g) else Inl ValueError)"
  by (simp add: int_group_def py_int_digits)

subsection \<open>The metrics of a log\<close>

lemma runtime_step:
  "(\<not> capture_ok runtime_re text \<and>
      set_if_match (re_search runtime_re text) runtime_seconds ''runtime_seconds'' [] = Inl ValueError) \<or>
   (capture_ok runtime_re text \<and>
      (\<exists>m1. set_if_match (re_search runtime_re text) runtime_seconds ''runtime_seconds'' [] = Inr m1 \<and>
         (case re_search runtime_re text of
            None \<Rightarrow> m1 = []
          | Some g \<Rightarrow> \<exists>h m sec. g = h @ CHR '':'' # m @ CHR '':'' # sec \<and>
                    digits h \<and> digits m \<and> digits sec \<and>
                    m1 = [(''runtime_seconds'', decimal h * 3600 + decimal m * 60 + decimal sec)])))"
proof (cases "re_search runtime_re text")
  case None
  then show ?thesis by (simp add: set_if_match_def capture_ok_def)
next
  case (Some g)
  from runtime_re_shape[OF Some] obtain h m sec where
    g: "g = h @ CHR '':'' # m @ CHR '':'' # sec" and d: "digits h" "digits m" "digits sec" by blast
  let ?ok = "length h \<le> int_max_str_digits \<and> length m \<le> int_max_str_digits \<and>
                 length sec \<le> int_max_str_digits"
  have c: "capture_ok runtime_re text = ?ok"
    using Some g split_on_hms[OF d] by (simp add: capture_ok_def)
  show ?thesis
  proof (cases ?ok)
    case False
    with c Some g runtime_seconds_hms[OF d] show ?thesis
      by (simp add: set_if_match_def)
  next
    case True
    with Some g runtime_seconds_hms[OF d]
    have s: "set_if_match (re_search runtime_re text) runtime_seconds ''runtime_seconds'' []
        = Inr [(''runtime_seconds'', decimal h * 3600 + decimal m * 60 + decimal sec)]"
      by (simp add: set_if_match_def)
    have "\<exists>h' m' sec'. g = h' @ CHR '':'' # m' @ CHR '':'' # sec' \<and>
                    digits h' \<and> digits m' \<and> digits sec' \<and>
                    [(''runtime_seconds'', decimal h * 3600 + decimal m * 60 + decimal sec)]
                      = [(''runtime_seconds'', decimal h' * 3600 + decimal m' * 60 + decimal sec')]"
      using g d by (intro exI[of _ h] exI[of _ m] exI[of _ sec]) simp
    with True c s Some show ?thesis by simp
  qed
qed

lemma number_step:
  assumes re: "re = lits w @ [Greedy Space 0, Lit (CHR '':''), Greedy Space 0, Open, Greedy Digit 1, Close]"
  shows "set_if_match (re_search re text) int_group key d =
     (if capture_ok re text
      then Inr (case re_search re text of None \<Rightarrow> d | Some g \<Rightarrow> dict_set d key (decimal g))
      else Inl ValueError)"
proof (cases "re_search re text")
  case None
  then show ?thesis by (simp add: set_if_match_def capture_ok_def)
next
  case (Some g)
  with re have dg: "digits g" using number_re_shape[of w "text" g] by simp
  then have "split_on (CHR '':'') g = [g]" by (simp add: split_on_no_sep digits_no_colon)
  with Some have c: "capture_ok re text = (length g \<le> int_max_str_digits)"
    by (simp add: capture_ok_def)
  with Some int_group_digits[OF dg] show ?thesis by (simp add: set_if_match_def)
qed

lemma log_metrics_over_limit:
  assumes "\<not> (capture_ok runtime_re text \<and> capture_ok memory_re text \<and> capture_ok disk_re text)"
  shows "log_metrics text = Inl ValueError"
proof (cases "capture_ok runtime_re text")
  case False
  with runtime_step[of "text"] show ?thesis by (simp add: log_metrics_def)
next
  case True
  with runtime_step[of "text"] obtain m1 where
    m1: "set_if_match (re_search runtime_re text) runtime_seconds ''runtime_seconds'' [] = Inr m1"
    by auto
  show ?thesis
  proof (cases "capture_ok memory_re text")
    case False
    with m1 show ?thesis
      by (simp add: log_metrics_def number_step[OF memory_re_def])
  next
    case m: True
    with True assms have "\<not> capture_ok disk_re text" by simp
    with m m1 show ?thesis
      by (simp add: log_metrics_def number_step[OF memory_re_def] number_step[OF disk_re_def])
  qed
qed

lemma log_metrics_fields:
  assumes ok: "capture_ok runtime_re text \<and> capture_ok memory_re text \<and> capture_ok disk_re text"
  shows "\<exists>metrics. log_metrics text = Inr metrics \<and>
     (case re_search runtime_re text of
        None \<Rightarrow> map_of metrics ''runtime_seconds'' = None
      | Some g \<Rightarrow> \<exists>h m sec. g = h @ CHR '':'' # m @ CHR '':'' # sec \<and>
                    digits h \<and> digits m \<and> digits sec \<and>
                    map_of metrics ''runtime_seconds''
                      = Some (decimal h * 3600 + decimal m * 60 + decimal sec)) \<and>
     map_of metrics ''memory_mb'' = map_option decimal (re_search memory_re text) \<and>
     map_of metrics ''disk_kb'' = map_option decimal (re_search disk_re text) \<and>
     (\<forall>k. k \<noteq> ''runtime_seconds'' \<and> k \<noteq> ''memory_mb'' \<and> k \<noteq> ''disk_kb'' \<longrightarrow> map_of metrics k = None)"
proof -
  from ok runtime_step[of "text"] obtain m1 where
    m1: "set_if_match (re_search runtime_re text) runtime_seconds ''runtime_seconds'' [] = Inr m1"
    and r1: "case re_search runtime_re text of
        None \<Rightarrow> m1 = []
      | Some g \<Rightarrow> \<exists>h m sec. g = h @ CHR '':'' # m @ CHR '':'' # sec \<and>
                    digits h \<and> digits m \<and> digits sec \<and>
                    m1 = [(''runtime_seconds'', decimal h * 3600 + decimal m * 60 + decimal sec)]"
    by auto
  define m2 where "m2 = (case re_search memory_re text of None \<Rightarrow> m1
                          | Some g \<Rightarrow> dict_set m1 ''memory_mb'' (decimal g))"
  define m3 where "m3 = (case re_search disk_re text of None \<Rightarrow> m2
                          | Some g \<Rightarrow> dict_set m2 ''disk_kb'' (decimal g))"
  have s2: "set_if_match (re_search memory_re text) int_group ''memory_mb'' m1 = Inr m2"
    using ok by (simp add: number_step[OF memory_re_def] m2_def)
  have s3: "set_if_match (re_search disk_re text) int_group ''disk_kb'' m2 = Inr m3"
    using ok by (simp add: number_step[OF disk_re_def] m3_def)
  have lm: "log_metrics text = Inr m3"
    by (simp add: log_metrics_def m1 s2 s3)
  have rs: "map_of m3 ''runtime_seconds'' = map_of m1 ''runtime_seconds''"
    by (simp add: m3_def m2_def split: option.splits)
  have k1: "case re_search runtime_re text of
        None \<Rightarrow> map_of m3 ''runtime_seconds'' = None
      | Some g \<Rightarrow> \<exists>h m sec. g = h @ CHR '':'' # m @ CHR '':'' # sec \<and>
                    digits h \<and> digits m \<and> digits sec \<and>
                    map_of m3 ''runtime_seconds''
                      = Some (decimal h * 3600 + decimal m * 60 + decimal sec)"
  proof (cases "re_search runtime_re text")
    case None
    with r1 rs show ?thesis by simp
  next
    case (Some g)
    with r1 obtain h m sec where "g = h @ CHR '':'' # m @ CHR '':'' # sec"
      "digits h" "digits m" "digits sec"
      "m1 = [(''runtime_seconds'', decimal h * 3600 + decimal m * 60 + decimal sec)]"
      by auto
    with rs have "g = h @ CHR '':'' # m @ CHR '':'' # sec \<and>
                    digits h \<and> digits m \<and> digits sec \<and>
                    map_of m3 ''runtime_seconds''
                      = Some (decimal h * 3600 + decimal m * 60 + decimal sec)"
      by simp
    then have "\<exists>h m sec. g = h @ CHR '':'' # m @ CHR '':'' # sec \<and>
                    digits h \<and> digits m \<and> digits sec \<and>
                    map_of m3 ''runtime_seconds''
                      = Some (decimal h * 3600 + decimal m * 60 + decimal sec)"
      by blast
    with Some show ?thesis by simp
  qed
  have k2: "map_of m3 ''memory_mb'' = map_option decimal (re_search memory_re text)"
    using r1 by (auto simp: m3_def m2_def split: option.splits)
  have k3: "map_of m3 ''disk_kb'' = map_option decimal (re_search disk_re text)"
    using r1 by (auto simp: m3_def m2_def split: option.splits)
  have k4: "\<forall>k. k \<noteq> ''runtime_seconds'' \<and> k \<noteq> ''memory_mb'' \<and> k \<noteq> ''disk_kb'' \<longrightarrow> map_of m3 k = None"
    using r1 by (auto simp: m3_def m2_def split: option.splits)
  show ?thesis by (rule exI[of _ m3]) (intro conjI lm k1 k2 k3 k4)
qed

subsection \<open>A number too long to convert\<close>

lemma length_long_digits: "length long_digits = 4300"
  by (simp add: long_digits_def)

lemma greedy_replicate:
  "in_cls k c \<Longrightarrow> n \<le> m \<Longrightarrow> rmatch [Greedy k n, Close] start cap (replicate m c) = Some start"
proof (induction m arbitrary: n)
  case 0
  then show ?case by simp
next
  case (Suc m)
  from Suc.prems have "n - 1 \<le> m" by simp
  from Suc.IH[OF Suc.prems(1) this] Suc.prems(1) show ?case by simp
qed

lemma greedy_long_digits:
  "rmatch [Greedy Digit 0, Close] start cap long_digits = Some start"
  unfolding long_digits_def by (rule greedy_replicate) (simp_all add: is_digit_def)

lemma big_log_runtime: "re_search runtime_re big_log_text = Some ''0:00:01''"
  by (simp add: big_log_text_def runtime_re_def lits_def is_digit_def length_long_digits)

lemma big_log_memory: "re_search memory_re big_log_text = Some (CHR ''1'' # long_digits)"
  by (simp add: big_log_text_def memory_re_def lits_def is_digit_def is_space_def greedy_long_digits)

lemma big_log_not_ok: "\<not> capture_ok memory_re big_log_text"
proof -
  have "CHR '':'' \<notin> set (CHR ''1'' # long_digits)" by (simp add: long_digits_def)
  then have "split_on (CHR '':'') (CHR ''1'' # long_digits) = [CHR ''1'' # long_digits]"
    by (rule split_on_no_sep)
  then show ?thesis
    by (simp add: capture_ok_def big_log_memory length_long_digits int_max_str_digits_def)
qed

lemma big_log_file: "fs_big ''big.log'' = File big_log_text False"
  by (simp add: fs_big_def)

lemma big_log_None: "parse_log_file fs_big ''big.log'' = Inr None"
proof -
  have "log_metrics big_log_text = Inl ValueError"
    by (rule log_metrics_over_limit) (simp add: big_log_not_ok)
  then show ?thesis by (simp add: parse_log_file_def read_log_file_def big_log_file)
qed

text \<open>
  Against claim C6 as stated: the log holds a runtime of one second, which the
  runtime pattern matches, and a memory figure of 4301 digits. Converting the
  memory figure raises, the \<^verbatim>\<open>except\<close> clause returns \<^verbatim>\<open>None\<close>, and the
  matched runtime is not recorded.
\<close>

theorem oversize_number_drops_all_fields:
  "fs_big ''big.log'' = File big_log_text False \<and>
   re_search runtime_re big_log_text = Some ''0:00:01'' \<and>
   re_search memory_re big_log_text = Some (CHR ''1'' # long_digits) \<and>
   length (CHR ''1'' # long_digits) = 4301 \<and>
   parse_log_file fs_big ''big.log'' = Inr None"
proof -
  have l: "length (CHR ''1'' # long_digits) = 4301" by (simp add: length_long_digits)
  show ?thesis
    by (intro conjI) (rule big_log_file, rule big_log_runtime, rule big_log_memory, rule l,
      rule big_log_None)
qed

text \<open>
  Claim C6, amended. For a log that can be read and whose captured numbers all have
  at most 4300 digits, \<^verbatim>\<open>_parse_log_file\<close> returns the metrics dict when it is not
  empty, and each of its three fields is decided by its own pattern alone:
  \<open>runtime_seconds\<close> is present exactly when the runtime pattern matches, the
  capture then has the shape \<open>H:M:S\<close> of three runs of digits and the value is
  \<open>H * 3600 + M * 60 + S\<close>; \<open>memory_mb\<close> and \<open>disk_kb\<close> are the integers
  captured by their patterns. No other key is set. When a captured number has more
  than 4300 digits, the result is \<^verbatim>\<open>None\<close>. For the log of the example
  (\<open>01:02:03\<close>, \<open>2048\<close>, \<open>512000\<close>) the result holds \<open>runtime_seconds = 3723\<close>,
  \<open>memory_mb = 2048\<close> and \<open>disk_kb = 512000\<close>.
\<close>

theorem parse_log_file_fields:
  "(fs log_file = File text False \<and>
    capture_ok runtime_re text \<and> capture_ok memory_re text \<and> capture_ok disk_re text \<longrightarrow>
     (\<exists>metrics. parse_log_file fs log_file = Inr (if metrics \<noteq> [] then Some metrics else None) \<and>
        (case re_search runtime_re text of
           None \<Rightarrow> map_of metrics ''runtime_seconds'' = None
         | Some g \<Rightarrow> \<exists>h m sec. g = h @ CHR '':'' # m @ CHR '':'' # sec \<and>
                    digits h \<and> digits m \<and> digits sec \<and>
                    map_of metrics ''runtime_seconds''
                      = Some (decimal h * 3600 + decimal m * 60 + decimal sec)) \<and>
        map_of metrics ''memory_mb'' = map_option decimal (re_search memory_re text) \<and>
        map_of metrics ''disk_kb'' = map_option decimal (re_search disk_re text) \<and>
        (\<forall>k. k \<noteq> ''runtime_seconds'' \<and> k \<noteq> ''memory_mb'' \<and> k \<noteq> ''disk_kb''
           \<longrightarrow> map_of metrics k = None))) \<and>
   (fs log_file = File text False \<and>
    \<not> (capture_ok runtime_re text \<and> capture_ok memory_re text \<and> capture_ok disk_re text) \<longrightarrow>
     parse_log_file fs log_file = Inr None) \<and>
   parse_log_file fs0 ''job.log''
     = Inr (Some [(''runtime_seconds'', 3723), (''memory_mb'', 2048), (''disk_kb'', 512000)])"
proof (intro conjI impI)
  show "parse_log_file fs0 ''job.log''
     = Inr (Some [(''runtime_seconds'', 3723), (''memory_mb'', 2048), (''disk_kb'', 512000)])"
    by code_simp
next
  assume a: "fs log_file = File text False \<and>
    \<not> (capture_ok runtime_re text \<and> capture_ok memory_re text \<and> capture_ok disk_re text)"
  then have "log_metrics text = Inl ValueError" by (intro log_metrics_over_limit) simp
  with a show "parse_log_file fs log_file = Inr None"
    by (simp add: parse_log_file_def read_log_file_def)
next
  assume a: "fs log_file = File text False \<and>
    capture_ok runtime_re text \<and> capture_ok memory_re text \<and> capture_ok disk_re text"
  then have f: "fs log_file = File text False"
    and ok: "capture_ok runtime_re text \<and> capture_ok memory_re text \<and> capture_ok disk_re text"
    by simp_all
  from log_metrics_fields[OF ok] obtain metrics where m: "log_metrics text = Inr metrics"
    and rest: "(case re_search runtime_re text of
           None \<Rightarrow> map_of metrics ''runtime_seconds'' = None
         | Some g \<Rightarrow> \<exists>h m sec. g = h @ CHR '':'' # m @ CHR '':'' # sec \<and>
                    digits h \<and> digits m \<and> digits sec \<and>
                    map_of metrics ''runtime_seconds''
                      = Some (decimal h * 3600 + decimal m * 60 + decimal sec)) \<and>
        map_of metrics ''memory_mb'' = map_option decimal (re_search memory_re text) \<and>
        map_of metrics ''disk_kb'' = map_option decimal (re_search disk_re text) \<and>
        (\<forall>k. k \<noteq> ''runtime_seconds'' \<and> k \<noteq> ''memory_mb'' \<and> k \<noteq> ''disk_kb''
           \<longrightarrow> map_of metrics k = None)"
    by blast
  from f m have "parse_log_file fs log_file = Inr (if metrics \<noteq> [] then Some metrics else None)"
    by (simp add: parse_log_file_def read_log_file_def)
  with rest show "\<exists>metrics. parse_log_file fs log_file = Inr (if metrics \<noteq> [] then Some metrics else None) \<and>
        (case re_search runtime_re text of
           None \<Rightarrow> map_of metrics ''runtime_seconds'' = None
         | Some g \<Rightarrow> \<exists>h m sec. g = h @ CHR '':'' # m @ CHR '':'' # sec \<and>
                    digits h \<and> digits m \<and> digits sec \<and>
                    map_of metrics ''runtime_seconds''
                      = Some (decimal h * 3600 + decimal m * 60 + decimal sec)) \<and>
        map_of metrics ''memory_mb'' = map_option decimal (re_search memory_re text) \<and>
        map_of metrics ''disk_kb'' = map_option decimal (re_search disk_re text) \<and>
        (\<forall>k. k \<noteq> ''runtime_seconds'' \<and> k \<noteq> ''memory_mb'' \<and> k \<noteq> ''disk_kb''
           \<longrightarrow> map_of metrics k = None)"
    by (intro exI[of _ metrics] conjI) simp_all
qed

theorem parse_log_file_fields_witness:
  "fs0 ''mem.log'' = File ''Memory (MB) : 7'' False \<and>
   capture_ok runtime_re ''Memory (MB) : 7'' \<and>
   capture_ok memory_re ''Memory (MB) : 7'' \<and>
   capture_ok disk_re ''Memory (MB) : 7'' \<and>
   (\<exists>metrics. parse_log_file fs0 ''mem.log'' = Inr (if metrics \<noteq> [] then Some metrics else None) \<and>
        (case re_search runtime_re ''Memory (MB) : 7'' of
           None \<Rightarrow> map_of metrics ''runtime_seconds'' = None
         | Some g \<Rightarrow> \<exists>h m sec. g = h @ CHR '':'' # m @ CHR '':'' # sec \<and>
                    digits h \<and> digits m \<and> digits sec \<and>
                    map_of metrics ''runtime_seconds''
                      = Some (decimal h * 3600 + decimal m * 60 + decimal sec)) \<and>
        map_of metrics ''memory_mb'' = map_option decimal (re_search memory_re ''Memory (MB) : 7'') \<and>
        map_of metrics ''disk_kb'' = map_option decimal (re_search disk_re ''Memory (MB) : 7'') \<and>
        (\<forall>k. k \<noteq> ''runtime_seconds'' \<and> k \<noteq> ''memory_mb'' \<and> k \<noteq> ''disk_kb''
           \<longrightarrow> map_of metrics k = None)) \<and>
   re_search runtime_re ''Memory (MB) : 7'' = None \<and>
   map_option decimal (re_search memory_re ''Memory (MB) : 7'') = Some 7 \<and>
   re_search disk_re ''Memory (MB) : 7'' = None \<and>
   parse_log_file fs0 ''mem.log'' = Inr (Some [(''memory_mb'', 7)]) \<and>
   fs_big ''big.log'' = File big_log_text False \<and>
   \<not> capture_ok memory_re big_log_text \<and>
   parse_log_file fs_big ''big.log'' = Inr None"
proof -
  have f: "fs0 ''mem.log'' = File ''Memory (MB) : 7'' False" by (simp add: fs0_def)
  have c1: "capture_ok runtime_re ''Memory (MB) : 7''" by code_simp
  have c2: "capture_ok memory_re ''Memory (MB) : 7''" by code_simp
  have c3: "capture_ok disk_re ''Memory (MB) : 7''" by code_simp
  have r: "re_search runtime_re ''Memory (MB) : 7'' = None" by code_simp
  have m: "map_option decimal (re_search memory_re ''Memory (MB) : 7'') = Some 7" by code_simp
  have d: "re_search disk_re ''Memory (MB) : 7'' = None" by code_simp
  have p: "parse_log_file fs0 ''mem.log'' = Inr (Some [(''memory_mb'', 7)])" by code_simp
  have h1: "fs0 ''mem.log'' = File ''Memory (MB) : 7'' False \<and>
    capture_ok runtime_re ''Memory (MB) : 7'' \<and> capture_ok memory_re ''Memory (MB) : 7'' \<and>
    capture_ok disk_re ''Memory (MB) : 7''"
    by (intro conjI f c1 c2 c3)
  have h2: "fs_big ''big.log'' = File big_log_text False \<and>
    \<not> (capture_ok runtime_re big_log_text \<and> capture_ok memory_re big_log_text \<and>
       capture_ok disk_re big_log_text)"
    using big_log_file big_log_not_ok by simp
  note i = parse_log_file_fields[of fs0 "''mem.log''" "''Memory (MB) : 7''",
      THEN conjunct1, THEN mp, OF h1]
  note j = parse_log_file_fields[of fs_big "''big.log''" big_log_text,
      THEN conjunct2, THEN conjunct1, THEN mp, OF h2]
  show ?thesis
    by (intro conjI) (rule f, rule c1, rule c2, rule c3, rule i, rule r, rule m, rule d, rule p,
      rule big_log_file, rule big_log_not_ok, rule j)
qed

subsection \<open>Extraction never raises\<close>

lemma parse_submit_file_total:
  "\<exists>config. parse_submit_file fs submit_file = Inr config \<and>
      (case fs submit_file of
         File text bad \<Rightarrow> config = fold submit_line (file_lines text) []
       | _ \<Rightarrow> config = [])"
  by (cases "fs submit_file") (simp_all add: parse_submit_file_def read_submit_file_def)

lemma map_of_all_None: "(\<And>k. map_of m k = None) \<Longrightarrow> m = []"
proof (cases m)
  case Nil
  then show ?thesis .
next
  case (Cons x xs)
  assume z: "\<And>k. map_of m k = None"
  from Cons have "map_of m (fst x) = Some (snd x)" by (cases x) simp
  with z[of "fst x"] show ?thesis by simp
qed

lemma parse_log_file_unreadable:
  "\<forall>text. fs log_file \<noteq> File text False \<Longrightarrow> parse_log_file fs log_file = Inr None"
proof (cases "fs log_file")
  case Absent
  then show ?thesis by (simp add: parse_log_file_def read_log_file_def)
next
  case Dir
  then show ?thesis by (simp add: parse_log_file_def read_log_file_def)
next
  case (File t b)
  assume "\<forall>text. fs log_file \<noteq> File text False"
  with File have b by (cases b) simp_all
  with File show ?thesis by (simp add: parse_log_file_def read_log_file_def)
qed

lemma parse_log_file_readable:
  assumes t: "fs log_file = File t False"
  shows "\<exists>r. parse_log_file fs log_file = Inr r \<and> r \<noteq> Some [] \<and>
         (re_search runtime_re t = None \<and> re_search memory_re t = None \<and>
          re_search disk_re t = None \<longrightarrow> r = None) \<and>
         (\<forall>metrics. r = Some metrics \<longrightarrow>
            (re_search runtime_re t = None \<longrightarrow> map_of metrics ''runtime_seconds'' = None) \<and>
            (re_search memory_re t = None \<longrightarrow> map_of metrics ''memory_mb'' = None) \<and>
            (re_search disk_re t = None \<longrightarrow> map_of metrics ''disk_kb'' = None))"
proof (cases "capture_ok runtime_re t \<and> capture_ok memory_re t \<and> capture_ok disk_re t")
  case False
  from log_metrics_over_limit[OF False] t have "parse_log_file fs log_file = Inr None"
    by (simp add: parse_log_file_def read_log_file_def)
  then show ?thesis by (intro exI[of _ None]) simp
next
  case True
  from log_metrics_fields[OF True] obtain metrics where m: "log_metrics t = Inr metrics"
    and k1: "case re_search runtime_re t of
           None \<Rightarrow> map_of metrics ''runtime_seconds'' = None
         | Some g \<Rightarrow> \<exists>h m sec. g = h @ CHR '':'' # m @ CHR '':'' # sec \<and>
                    digits h \<and> digits m \<and> digits sec \<and>
                    map_of metrics ''runtime_seconds''
                      = Some (decimal h * 3600 + decimal m * 60 + decimal sec)"
    and k2: "map_of metrics ''memory_mb'' = map_option decimal (re_search memory_re t)"
    and k3: "map_of metrics ''disk_kb'' = map_option decimal (re_search disk_re t)"
    and k4: "\<forall>k. k \<noteq> ''runtime_seconds'' \<and> k \<noteq> ''memory_mb'' \<and> k \<noteq> ''disk_kb''
           \<longrightarrow> map_of metrics k = None"
    by (elim exE conjE)
  let ?r = "if metrics \<noteq> [] then Some metrics else None"
  from t m have p: "parse_log_file fs log_file = Inr ?r"
    by (simp add: parse_log_file_def read_log_file_def)
  have n1: "re_search runtime_re t = None \<Longrightarrow> map_of metrics ''runtime_seconds'' = None"
    using k1 by simp
  have n2: "re_search memory_re t = None \<Longrightarrow> map_of metrics ''memory_mb'' = None"
    using k2 by simp
  have n3: "re_search disk_re t = None \<Longrightarrow> map_of metrics ''disk_kb'' = None"
    using k3 by simp
  have none: "re_search runtime_re t = None \<and> re_search memory_re t = None \<and>
          re_search disk_re t = None \<longrightarrow> ?r = None"
  proof
    assume a: "re_search runtime_re t = None \<and> re_search memory_re t = None \<and>
          re_search disk_re t = None"
    have "map_of metrics k = None" for k
    proof (cases "k = ''runtime_seconds''")
      case True
      with a n1 show ?thesis by (simp only:)
    next
      case k1: False
      show ?thesis
      proof (cases "k = ''memory_mb''")
        case True
        with a n2 show ?thesis by (simp only:)
      next
        case k2: False
        show ?thesis
        proof (cases "k = ''disk_kb''")
          case True
          with a n3 show ?thesis by (simp only:)
        next
          case False
          with k1 k2 k4 show ?thesis by (simp only: simp_thms)
        qed
      qed
    qed
    then have "metrics = []" by (rule map_of_all_None)
    then show "?r = None" by simp
  qed
  have q1: "?r \<noteq> Some []" by simp
  have q4: "\<forall>ms. ?r = Some ms \<longrightarrow>
            (re_search runtime_re t = None \<longrightarrow> map_of ms ''runtime_seconds'' = None) \<and>
            (re_search memory_re t = None \<longrightarrow> map_of ms ''memory_mb'' = None) \<and>
            (re_search disk_re t = None \<longrightarrow> map_of ms ''disk_kb'' = None)"
  proof (intro allI impI conjI)
    fix ms assume "?r = Some ms" and "re_search runtime_re t = None"
    with n1 show "map_of ms ''runtime_seconds'' = None" by (simp split: if_splits)
  next
    fix ms assume "?r = Some ms" and "re_search memory_re t = None"
    with n2 show "map_of ms ''memory_mb'' = None" by (simp split: if_splits)
  next
    fix ms assume "?r = Some ms" and "re_search disk_re t = None"
    with n3 show "map_of ms ''disk_kb'' = None" by (simp split: if_splits)
  qed
  show ?thesis by (rule exI[of _ ?r]) (intro conjI p q1 none q4)
qed

text \<open>
  Against claim C7 as stated: on a readable log where no pattern matches,
  \<^verbatim>\<open>_parse_log_file\<close> returns \<^verbatim>\<open>None\<close>, not an empty mapping.
\<close>

theorem parse_log_file_no_match_is_None:
  "parse_log_file fs0 ''quiet.log'' = Inr None \<and> parse_log_file fs0 ''quiet.log'' \<noteq> Inr (Some [])"
  by code_simp

text \<open>
  Claim C7, amended. Neither extraction function raises, whatever the path names.
  \<^verbatim>\<open>_parse_submit_file\<close> returns the config built from the lines it could read,
  and the empty config when the file cannot be opened. \<^verbatim>\<open>_parse_log_file\<close>
  returns \<^verbatim>\<open>None\<close> when the log cannot be read and when no pattern matches,
  and never an empty mapping; a mapping it returns has no entry for a field whose
  pattern did not match.
\<close>

theorem extraction_never_raises:
  "(\<exists>config. parse_submit_file fs submit_file = Inr config \<and>
      (case fs submit_file of
         File text bad \<Rightarrow> config = fold submit_line (file_lines text) []
       | _ \<Rightarrow> config = [])) \<and>
   (\<exists>r. parse_log_file fs log_file = Inr r \<and> r \<noteq> Some [] \<and>
      ((\<forall>text. fs log_file \<noteq> File text False) \<longrightarrow> r = None) \<and>
      (\<forall>text. fs log_file = File text False \<longrightarrow>
         (re_search runtime_re text = None \<and> re_search memory_re text = None \<and>
          re_search disk_re text = None \<longrightarrow> r = None) \<and>
         (\<forall>metrics. r = Some metrics \<longrightarrow>
            (re_search runtime_re text = None \<longrightarrow> map_of metrics ''runtime_seconds'' = None) \<and>
            (re_search memory_re text = None \<longrightarrow> map_of metrics ''memory_mb'' = None) \<and>
            (re_search disk_re text = None \<longrightarrow> map_of metrics ''disk_kb'' = None))))"
proof (rule conjI)
  show "\<exists>config. parse_submit_file fs submit_file = Inr config \<and>
      (case fs submit_file of
         File text bad \<Rightarrow> config = fold submit_line (file_lines text) []
       | _ \<Rightarrow> config = [])"
    by (rule parse_submit_file_total)
next
  show "\<exists>r. parse_log_file fs log_file = Inr r \<and> r \<noteq> Some [] \<and>
      ((\<forall>text. fs log_file \<noteq> File text False) \<longrightarrow> r = None) \<and>
      (\<forall>text. fs log_file = File text False \<longrightarrow>
         (re_search runtime_re text = None \<and> re_search memory_re text = None \<and>
          re_search disk_re text = None \<longrightarrow> r = None) \<and>
         (\<forall>metrics. r = Some metrics \<longrightarrow>
            (re_search runtime_re text = None \<longrightarrow> map_of metrics ''runtime_seconds'' = None) \<and>
            (re_search memory_re text = None \<longrightarrow> map_of metrics ''memory_mb'' = None) \<and>
            (re_search disk_re text = None \<longrightarrow> map_of metrics ''disk_kb'' = None)))"
  proof (cases "\<forall>text. fs log_file \<noteq> File text False")
    case True
    from parse_log_file_unreadable[of fs log_file, OF True] have p: "parse_log_file fs log_file = Inr None" .
    show ?thesis
    proof (rule exI[of _ None], intro conjI allI impI)
      show "parse_log_file fs log_file = Inr None" by (rule p)
    qed (use True in simp_all)
  next
    case False
    then obtain t where t: "fs log_file = File t False" by blast
    from parse_log_file_readable[of fs log_file t, OF t] obtain r where
      p: "parse_log_file fs log_file = Inr r" and q1: "r \<noteq> Some []" and
      q3: "re_search runtime_re t = None \<and> re_search memory_re t = None \<and>
          re_search disk_re t = None \<longrightarrow> r = None" and
      q4: "\<forall>metrics. r = Some metrics \<longrightarrow>
            (re_search runtime_re t = None \<longrightarrow> map_of metrics ''runtime_seconds'' = None) \<and>
            (re_search memory_re t = None \<longrightarrow> map_of metrics ''memory_mb'' = None) \<and>
            (re_search disk_re t = None \<longrightarrow> map_of metrics ''disk_kb'' = None)"
      by (elim exE conjE)
    have q2: "(\<forall>text. fs log_file \<noteq> File text False) \<longrightarrow> r = None" using t by blast
    have q34: "\<forall>text. fs log_file = File text False \<longrightarrow>
         (re_search runtime_re text = None \<and> re_search memory_re text = None \<and>
          re_search disk_re text = None \<longrightarrow> r = None) \<and>
         (\<forall>metrics. r = Some metrics \<longrightarrow>
            (re_search runtime_re text = None \<longrightarrow> map_of metrics ''runtime_seconds'' = None) \<and>
            (re_search memory_re text = None \<longrightarrow> map_of metrics ''memory_mb'' = None) \<and>
            (re_search disk_re text = None \<longrightarrow> map_of metrics ''disk_kb'' = None))"
    proof (intro allI impI)
      fix text' assume "fs log_file = File text' False"
      with t have e: "text' = t" by simp
      show "(re_search runtime_re text' = None \<and> re_search memory_re text' = None \<and>
          re_search disk_re text' = None \<longrightarrow> r = None) \<and>
         (\<forall>metrics. r = Some metrics \<longrightarrow>
            (re_search runtime_re text' = None \<longrightarrow> map_of metrics ''runtime_seconds'' = None) \<and>
            (re_search memory_re text' = None \<longrightarrow> map_of metrics ''memory_mb'' = None) \<and>
            (re_search disk_re text' = None \<longrightarrow> map_of metrics ''disk_kb'' = None))"
        unfolding e by (rule conjI[OF q3 q4])
    qed
    show ?thesis by (rule exI[of _ r]) (intro conjI p q1 q2 q34)
  qed
qed

theorem extraction_never_raises_witness:
  "parse_submit_file fs0 ''missing.sub'' = Inr [] \<and>
   parse_log_file fs0 ''quiet.log'' = Inr None \<and>
   parse_log_file fs0 ''outdir'' = Inr None \<and>
   parse_log_file fs0 ''mem.log'' = Inr (Some [(''memory_mb'', 7)]) \<and>
   re_search runtime_re ''Memory (MB) : 7'' = None \<and>
   re_search disk_re ''Memory (MB) : 7'' = None \<and>
   map_of [(''memory_mb'', 7 :: int)] ''runtime_seconds'' = None \<and>
   map_of [(''memory_mb'', 7 :: int)] ''disk_kb'' = None \<and>
   (\<exists>config. parse_submit_file fs0 ''missing.sub'' = Inr config \<and>
      (case fs0 ''missing.sub'' of
         File text bad \<Rightarrow> config = fold submit_line (file_lines text) []
       | _ \<Rightarrow> config = [])) \<and>
   (\<exists>r. parse_log_file fs0 ''mem.log'' = Inr r \<and> r \<noteq> Some [] \<and>
      ((\<forall>text. fs0 ''mem.log'' \<noteq> File text False) \<longrightarrow> r = None) \<and>
      (\<forall>text. fs0 ''mem.log'' = File text False \<longrightarrow>
         (re_search runtime_re text = None \<and> re_search memory_re text = None \<and>
          re_search disk_re text = None \<longrightarrow> r = None) \<and>
         (\<forall>metrics. r = Some metrics \<longrightarrow>
            (re_search runtime_re text = None \<longrightarrow> map_of metrics ''runtime_seconds'' = None) \<and>
            (re_search memory_re text = None \<longrightarrow> map_of metrics ''memory_mb'' = None) \<and>
            (re_search disk_re text = None \<longrightarrow> map_of metrics ''disk_kb'' = None))))"
proof -
  have a: "parse_submit_file fs0 ''missing.sub'' = Inr []" by code_simp
  have b: "parse_log_file fs0 ''quiet.log'' = Inr None" by code_simp
  have c: "parse_log_file fs0 ''outdir'' = Inr None" by code_simp
  have d: "parse_log_file fs0 ''mem.log'' = Inr (Some [(''memory_mb'', 7)])" by code_simp
  have e: "re_search runtime_re ''Memory (MB) : 7'' = None" by code_simp
  have f: "re_search disk_re ''Memory (MB) : 7'' = None" by code_simp
  have g: "map_of [(''memory_mb'', 7 :: int)] ''runtime_seconds'' = None" by simp
  have h: "map_of [(''memory_mb'', 7 :: int)] ''disk_kb'' = None" by simp
  note i = extraction_never_raises[of fs0 "''missing.sub''" "''mem.log''"]
  show ?thesis
    by (intro conjI) (rule a, rule b, rule c, rule d, rule e, rule f, rule g, rule h,
      rule i[THEN conjunct1], rule i[THEN conjunct2])
qed

end
